theory Spec2Isabelle
  imports Main "HOL-Library.Word"
begin

unbundle bit_operations_syntax

section \<open>Data model\<close>

text \<open>
  A Python \<open>bytes\<close> object is a list of 8-bit words; a Python \<open>int\<close> is an \<open>int\<close>.
  Iterating a \<open>bytes\<close> object yields ints (\<open>map uint\<close>); building one from ints
  (\<open>bytes(...)\<close>) checks the range of every element.
\<close>

type_synonym byte = "8 word"
type_synonym bytes = "byte list"

text \<open>The exceptions the two modules raise, one constructor for each exception class.\<close>

datatype error =
    Exception string
  | ValueError string
  | NotImplementedError
  | StructError
  | IndexError
  | ConnectionError
  | ZeroDivisionError

text \<open>\<open>connection.py\<close>, class \<open>CmdType\<close>, and the \<open>.value\<close> of each member.\<close>

datatype CmdType =
    GET_COMMANDS
  | GET_PROTECTION
  | GET_CHIP_ID
  | READ
  | EXECUTE
  | WRITE
  | ERASE
  | ERASE_EXTENDED
  | SPECIAL
  | SPECIAL_EXTENDED
  | PROTECT_READ
  | UNPROTECT_READ
  | PROTECT_WRITE
  | UNPROTECT_WRITE
  | CHECK_CRC

fun cmd_value :: "CmdType \<Rightarrow> int" where
  "cmd_value GET_COMMANDS = 0x00"
| "cmd_value GET_PROTECTION = 0x01"
| "cmd_value GET_CHIP_ID = 0x02"
| "cmd_value READ = 0x11"
| "cmd_value EXECUTE = 0x21"
| "cmd_value WRITE = 0x31"
| "cmd_value ERASE = 0x43"
| "cmd_value ERASE_EXTENDED = 0x44"
| "cmd_value SPECIAL = 0x50"
| "cmd_value SPECIAL_EXTENDED = 0x51"
| "cmd_value PROTECT_READ = 0x82"
| "cmd_value UNPROTECT_READ = 0x92"
| "cmd_value PROTECT_WRITE = 0x63"
| "cmd_value UNPROTECT_WRITE = 0x73"
| "cmd_value CHECK_CRC = 0xA1"

text \<open>\<open>client.py\<close>, classes \<open>Protection\<close> and \<open>Info\<close>.\<close>

datatype Protection =
    Protection_PROTECT_READ
  | Protection_UNPROTECT_READ
  | Protection_PROTECT_WRITE
  | Protection_UNPROTECT_WRITE

record Info =
  version :: int
  chip_id :: int
  device_id :: bytes
  flash_size :: int

section \<open>Actions that may raise\<close>

text \<open>
  A coroutine of the source is a function from the state it works on to a result
  (\<open>Inl\<close> the exception raised, \<open>Inr\<close> the value returned) and the state it leaves.
\<close>

type_synonym ('s, 'a) action = "'s \<Rightarrow> (error + 'a) \<times> 's"

definition raise :: "error \<Rightarrow> ('s, 'a) action" where
  "raise e s = (Inl e, s)"

definition lift_result :: "error + 'a \<Rightarrow> ('s, 'a) action" where
  "lift_result r s = (r, s)"

definition and_then :: "('s, 'a) action \<Rightarrow> ('a \<Rightarrow> ('s, 'b) action) \<Rightarrow> ('s, 'b) action" where
  "and_then m f s = (case m s of (Inl e, s') \<Rightarrow> (Inl e, s') | (Inr x, s') \<Rightarrow> f x s')"

section \<open>The serial endpoint\<close>

text \<open>
  The byte stream of \<open>hat.drivers.serial\<close>, which the source only calls: \<open>written\<close> is
  the log of the \<open>write\<close> calls, one entry for each call; \<open>incoming\<close> holds the bytes
  that have arrived and are not yet read; \<open>device\<close> is the peer, which answers the log
  of writes up to and including the latest one with the bytes it sends back. A peer that
  never answers, together with a preloaded \<open>incoming\<close>, is a scripted stream.
  A \<open>read\<close> of more bytes than will ever arrive does not return a value in the
  source; here it ends the action with \<open>ConnectionError\<close>.
\<close>

record transport =
  written :: "bytes list"
  incoming :: bytes
  device :: "bytes list \<Rightarrow> bytes"

definition serial_write :: "bytes \<Rightarrow> (transport, unit) action" where
  "serial_write data t =
     (let log = written t @ [data]
      in (Inr (), t\<lparr>written := log, incoming := incoming t @ device t log\<rparr>))"

definition serial_read :: "int \<Rightarrow> (transport, bytes) action" where
  "serial_read sz t =
     (if sz \<le> int (length (incoming t))
      then (Inr (take (nat sz) (incoming t)), t\<lparr>incoming := drop (nat sz) (incoming t)\<rparr>)
      else (Inl ConnectionError, t))"

section \<open>Library functions the source calls\<close>

text \<open>\<open>bytes(iterable)\<close>: every element must be in \<open>range(0, 256)\<close>.\<close>

definition bytes_py :: "int list \<Rightarrow> error + bytes" where
  "bytes_py xs =
     (if list_all (\<lambda>x. 0 \<le> x \<and> x < 256) xs then Inr (map word_of_int xs)
      else Inl (ValueError ''bytes must be in range(0, 256)''))"

text \<open>\<open>struct.pack('>I', x)\<close>: four bytes, most significant first.\<close>

definition pack_be_u32 :: "int \<Rightarrow> error + bytes" where
  "pack_be_u32 x =
     (if 0 \<le> x \<and> x \<le> 0xFFFFFFFF
      then Inr [word_of_int (x div 2 ^ 24 mod 256), word_of_int (x div 2 ^ 16 mod 256),
                word_of_int (x div 2 ^ 8 mod 256), word_of_int (x mod 256)]
      else Inl StructError)"

text \<open>\<open>struct.unpack('<H', b)[0]\<close>: two bytes, least significant first.\<close>

definition unpack_le_u16 :: "bytes \<Rightarrow> error + int" where
  "unpack_le_u16 b =
     (case b of [b0, b1] \<Rightarrow> Inr (uint b0 + 256 * uint b1) | _ \<Rightarrow> Inl StructError)"

text \<open>\<open>int.from_bytes(b, byteorder='big')\<close>.\<close>

definition int_from_bytes_big :: "bytes \<Rightarrow> int" where
  "int_from_bytes_big b = foldl (\<lambda>acc x. acc * 256 + uint x) 0 b"

text \<open>The format \<open>{x:02x}\<close> of a byte: two lower-case hexadecimal digits.\<close>

definition hex_digit :: "nat \<Rightarrow> char" where
  "hex_digit n = ''0123456789abcdef'' ! (n mod 16)"

definition format_02x :: "byte \<Rightarrow> string" where
  "format_02x b = [hex_digit (unat b div 16), hex_digit (unat b mod 16)]"

section \<open>connection.py\<close>

subsection \<open>\<open>_get_data_with_checksum\<close>\<close>

text \<open>
  The generator's loop: \<open>count\<close>, \<open>crc\<close> and the items yielded so far. The caller
  (\<open>bytes(...)\<close> in \<open>_send\<close>) consumes the generator to its end, so the model returns
  all the items yielded, or the exception raised after the loop.
\<close>

fun checksum_loop :: "int list \<Rightarrow> int \<Rightarrow> int \<Rightarrow> int list \<Rightarrow> int \<times> int \<times> int list" where
  "checksum_loop [] count crc out = (count, crc, out)"
| "checksum_loop (i # data) count crc out =
     checksum_loop data (count + 1) (0xFF AND (crc XOR i)) (out @ [i])"

definition get_data_with_checksum :: "int list \<Rightarrow> error + int list" where
  "get_data_with_checksum data =
     (case checksum_loop data 0 0 [] of
        (count, crc, out) \<Rightarrow>
          if count < 1 then Inl (ValueError ''invalid data size'')
          else if count < 2 then Inr (out @ [0xFF AND NOT crc])
          else Inr (out @ [crc]))"

subsection \<open>\<open>Connection._receive_ack\<close> and \<open>Connection._send\<close>\<close>

definition receive_ack :: "(transport, unit) action" where
  "receive_ack =
     and_then (serial_read 1) (\<lambda>res.
       if res = [0x1F] then raise (Exception ''received NACK'')
       else if res \<noteq> [0x79] then
         (case res of
            [] \<Rightarrow> raise IndexError
          | b # _ \<Rightarrow> raise (Exception (''received unknown response: 0x'' @ format_02x b)))
       else lift_result (Inr ()))"

text \<open>The first line of \<open>_send\<close>: \<open>bytes(_get_data_with_checksum(data))\<close>.\<close>

definition data_with_checksum :: "int list \<Rightarrow> error + bytes" where
  "data_with_checksum data =
     (case get_data_with_checksum data of Inl e \<Rightarrow> Inl e | Inr items \<Rightarrow> bytes_py items)"

definition send :: "int list \<Rightarrow> (transport, unit) action" where
  "send data =
     and_then (lift_result (data_with_checksum data)) (\<lambda>frame.
     and_then (serial_write frame) (\<lambda>_.
     receive_ack))"

subsection \<open>The wire commands of \<open>Connection\<close>\<close>

definition get_chip_id :: "(transport, int) action" where
  "get_chip_id =
     and_then (send [cmd_value GET_CHIP_ID]) (\<lambda>_.
     and_then (serial_read 1) (\<lambda>count_bytes.
       case count_bytes of
         [] \<Rightarrow> raise IndexError
       | c # _ \<Rightarrow>
           and_then (serial_read (uint c + 1)) (\<lambda>chip_id_bytes.
           and_then receive_ack (\<lambda>_.
           lift_result (Inr (int_from_bytes_big chip_id_bytes))))))"

definition conn_read :: "int \<Rightarrow> int \<Rightarrow> (transport, bytes) action" where
  "conn_read start_address sz =
     (if sz > 0x100 then raise (ValueError ''unsupported size'')
      else
        and_then (send [cmd_value READ]) (\<lambda>_.
        and_then (lift_result (pack_be_u32 start_address)) (\<lambda>start_address_bytes.
        and_then (send (map uint start_address_bytes)) (\<lambda>_.
        and_then (send [sz - 1]) (\<lambda>_.
        serial_read sz)))))"

definition conn_write :: "int \<Rightarrow> bytes \<Rightarrow> (transport, unit) action" where
  "conn_write start_address data =
     (let sz = int (length data)
      in if sz > 0x100 \<or> sz < 1 then raise (ValueError ''unsupported data'')
         else
           and_then (send [cmd_value WRITE]) (\<lambda>_.
           and_then (lift_result (pack_be_u32 start_address)) (\<lambda>start_address_bytes.
           and_then (send (map uint start_address_bytes)) (\<lambda>_.
           send ((sz - 1) # map uint data)))))"

definition conn_execute :: "int \<Rightarrow> (transport, unit) action" where
  "conn_execute start_address =
     and_then (send [cmd_value EXECUTE]) (\<lambda>_.
     and_then (lift_result (pack_be_u32 start_address)) (\<lambda>start_address_bytes.
     send (map uint start_address_bytes)))"

definition conn_erase :: "int list option \<Rightarrow> (transport, unit) action" where
  "conn_erase pages =
     (if pages \<noteq> None \<and> (int (length (the pages)) < 1 \<or> int (length (the pages)) > 0xFF)
      then raise (ValueError ''unsupported pages length'')
      else
        and_then (send [cmd_value ERASE]) (\<lambda>_.
          case pages of
            None \<Rightarrow> send [0xFF]
          | Some ps \<Rightarrow> send ((int (length ps) - 1) # ps)))"

definition protect_read :: "(transport, unit) action" where
  "protect_read = and_then (send [cmd_value PROTECT_READ]) (\<lambda>_. receive_ack)"

definition unprotect_read :: "(transport, unit) action" where
  "unprotect_read = and_then (send [cmd_value UNPROTECT_READ]) (\<lambda>_. receive_ack)"

definition protect_write :: "(transport, unit) action" where
  "protect_write = raise NotImplementedError"

definition unprotect_write :: "(transport, unit) action" where
  "unprotect_write = and_then (send [cmd_value UNPROTECT_WRITE]) (\<lambda>_. receive_ack)"

section \<open>client.py\<close>

text \<open>
  \<open>ProgressCb\<close>, the caller's callable. It is called with \<open>current\<close> and \<open>total\<close>
  and either returns (\<open>None\<close>) or raises; the first argument here is the list of the
  calls it has received before, oldest first, which stands for whatever state the
  callable keeps. A method's parameter \<open>progress_cb\<close> is \<open>None\<close> when the caller passes
  no callback.
\<close>

type_synonym progress_cb = "(int \<times> int) list \<Rightarrow> int \<Rightarrow> int \<Rightarrow> error option"

text \<open>
  The attributes of \<open>Client\<close> (\<open>_conn\<close>, \<open>_version\<close>, \<open>_cmd_types\<close>), and
  \<open>cb_calls\<close>: the calls the caller's \<open>progress_cb\<close> has received, each with its two
  arguments, oldest first.
\<close>

record client =
  conn :: transport
  client_version :: int
  cmd_types :: "CmdType set"
  cb_calls :: "(int \<times> int) list"

definition on_conn :: "(transport, 'a) action \<Rightarrow> (client, 'a) action" where
  "on_conn m c = (case m (conn c) of (r, t) \<Rightarrow> (r, c\<lparr>conn := t\<rparr>))"

text \<open>
  \<open>if progress_cb: progress_cb(current, total)\<close>. The call is recorded, and what the
  callback raises is raised by the method: the source has no handler around the call.
\<close>

definition call_progress_cb :: "progress_cb option \<Rightarrow> int \<Rightarrow> int \<Rightarrow> (client, unit) action" where
  "call_progress_cb progress_cb current total_size c =
     (case progress_cb of
        None \<Rightarrow> (Inr (), c)
      | Some f \<Rightarrow>
          (case f (cb_calls c) current total_size of
             None \<Rightarrow> (Inr (), c\<lparr>cb_calls := cb_calls c @ [(current, total_size)]\<rparr>)
           | Some e \<Rightarrow> (Inl e, c\<lparr>cb_calls := cb_calls c @ [(current, total_size)]\<rparr>)))"

definition get_info :: "(client, Info) action" where
  "get_info c =
     (if GET_CHIP_ID \<notin> cmd_types c then raise (Exception ''get chip id not supported'') c
      else if READ \<notin> cmd_types c then raise (Exception ''read not supported'') c
      else
        and_then (on_conn get_chip_id) (\<lambda>chip_id.
        and_then (on_conn (conn_read 0x1FFFF7E8 12)) (\<lambda>device_id.
        and_then (on_conn (conn_read 0x1FFFF7E0 2)) (\<lambda>flash_size_bytes.
        and_then (lift_result (unpack_le_u16 flash_size_bytes)) (\<lambda>raw.
        lift_result (Inr \<lparr>version = client_version c, chip_id = chip_id,
                           device_id = device_id, flash_size = raw * 1024\<rparr>))))) c)"

definition set_protection :: "Protection \<Rightarrow> (client, unit) action" where
  "set_protection protection c =
     (case protection of
        Protection_PROTECT_READ \<Rightarrow>
          if PROTECT_READ \<notin> cmd_types c then raise (Exception ''protect read not supported'') c
          else on_conn protect_read c
      | Protection_UNPROTECT_READ \<Rightarrow>
          if UNPROTECT_READ \<notin> cmd_types c
          then raise (Exception ''unprotect read not supported'') c
          else on_conn unprotect_read c
      | Protection_PROTECT_WRITE \<Rightarrow>
          if PROTECT_WRITE \<notin> cmd_types c
          then raise (Exception ''protect write not supported'') c
          else on_conn protect_write c
      | Protection_UNPROTECT_WRITE \<Rightarrow>
          if UNPROTECT_WRITE \<notin> cmd_types c
          then raise (Exception ''unprotect write not supported'') c
          else on_conn unprotect_write c)"

text \<open>The \<open>while size > 0\<close> loop of \<open>Client.read\<close>; \<open>segments\<close> is the deque.\<close>

function read_loop ::
  "progress_cb option \<Rightarrow> int \<Rightarrow> int \<Rightarrow> int \<Rightarrow> int \<Rightarrow> bytes list \<Rightarrow>
     (client, bytes list) action" where
  "read_loop progress_cb total_size read_size start_address sz segments c =
     (if sz > 0 then
        (let segment_size = min sz 0x100
         in case on_conn (conn_read start_address segment_size) c of
              (Inl e, c') \<Rightarrow> (Inl e, c')
            | (Inr segment, c') \<Rightarrow>
                (case call_progress_cb progress_cb (read_size + segment_size) total_size c' of
                   (Inl e, c'') \<Rightarrow> (Inl e, c'')
                 | (Inr _, c'') \<Rightarrow>
                     read_loop progress_cb total_size (read_size + segment_size)
                       (start_address + segment_size) (sz - segment_size)
                       (segments @ [segment]) c''))
      else (Inr segments, c))"
  by pat_completeness auto
termination
  by (relation "measure (\<lambda>(progress_cb, total_size, read_size, start_address, sz, segments, c).
                  nat sz)") auto

declare read_loop.simps [simp del]

definition client_read :: "int \<Rightarrow> int \<Rightarrow> progress_cb option \<Rightarrow> (client, bytes) action" where
  "client_read start_address sz progress_cb c =
     (if READ \<notin> cmd_types c then raise (Exception ''read not supported'') c
      else
        and_then (call_progress_cb progress_cb 0 sz) (\<lambda>_.
        and_then (read_loop progress_cb sz 0 start_address sz []) (\<lambda>segments.
        lift_result (Inr (concat segments)))) c)"

text \<open>The \<open>while data\<close> loop of \<open>Client.write\<close>.\<close>

function write_loop ::
  "progress_cb option \<Rightarrow> int \<Rightarrow> int \<Rightarrow> int \<Rightarrow> bytes \<Rightarrow> (client, unit) action" where
  "write_loop progress_cb total_size written_size start_address data c =
     (if data \<noteq> [] then
        (let segment_size = min (int (length data)) 0x100
         in case on_conn (conn_write start_address (take (nat segment_size) data)) c of
              (Inl e, c') \<Rightarrow> (Inl e, c')
            | (Inr _, c') \<Rightarrow>
                (case call_progress_cb progress_cb (written_size + segment_size) total_size c' of
                   (Inl e, c'') \<Rightarrow> (Inl e, c'')
                 | (Inr _, c'') \<Rightarrow>
                     write_loop progress_cb total_size (written_size + segment_size)
                       (start_address + segment_size) (drop (nat segment_size) data) c''))
      else (Inr (), c))"
  by pat_completeness auto
termination
  by (relation "measure (\<lambda>(progress_cb, total_size, written_size, start_address, data, c).
                  length data)") auto

declare write_loop.simps [simp del]

definition client_write :: "int \<Rightarrow> bytes \<Rightarrow> progress_cb option \<Rightarrow> (client, unit) action" where
  "client_write start_address data progress_cb c =
     (if WRITE \<notin> cmd_types c then raise (Exception ''write not supported'') c
      else
        and_then (call_progress_cb progress_cb 0 (int (length data)))
          (\<lambda>_. write_loop progress_cb (int (length data)) 0 start_address data) c)"

text \<open>
  \<open>main.py\<close>, \<open>_print_progress\<close> with its first two parameters bound, the only callback
  the repository passes: it formats \<open>int(100 * current / total)\<close> before it prints, and
  the division raises when \<open>total\<close> is 0.
\<close>

definition print_progress :: progress_cb where
  "print_progress before current total_size =
     (if total_size = 0 then Some ZeroDivisionError else None)"

definition client_erase :: "int list option \<Rightarrow> (client, unit) action" where
  "client_erase pages c =
     (if ERASE \<notin> cmd_types c then raise (Exception ''erase not supported'') c
      else on_conn (conn_erase pages) c)"

definition client_execute :: "int \<Rightarrow> (client, unit) action" where
  "client_execute start_address c =
     (if EXECUTE \<notin> cmd_types c then raise (Exception ''execute not supported'') c
      else on_conn (conn_execute start_address) c)"

section \<open>Reference definitions, following the specification\<close>

text \<open>
  The checksum as the specification words it, on bytes: the exclusive or of all the body
  bytes, and the bitwise complement of the byte when the body has exactly one.
\<close>

definition xor_all :: "bytes \<Rightarrow> byte" where
  "xor_all body = foldr (XOR) body 0"

definition frame_checksum :: "bytes \<Rightarrow> byte" where
  "frame_checksum body = (if length body = 1 then NOT (hd body) else xor_all body)"

text \<open>A frame: the body followed by its checksum byte.\<close>

definition frame_of :: "bytes \<Rightarrow> bytes" where
  "frame_of body = body @ [frame_checksum body]"

text \<open>An address on the wire: four bytes, most significant first.\<close>

definition be32 :: "int \<Rightarrow> bytes" where
  "be32 a = [word_of_int (a div 2 ^ 24), word_of_int (a div 2 ^ 16),
             word_of_int (a div 2 ^ 8), word_of_int a]"

text \<open>
  One wire write command: the opcode frame, the address frame, and the frame of the
  length-minus-one byte followed by the data.
\<close>

definition wire_write :: "int \<Rightarrow> bytes \<Rightarrow> bytes list" where
  "wire_write a seg =
     [frame_of [0x31], frame_of (be32 a),
      frame_of (word_of_int (int (length seg) - 1) # seg)]"

text \<open>
  The segments of a write of \<open>data\<close> at \<open>address\<close>: \<open>ceil(N/256)\<close> of them, segment
  \<open>k\<close> holding the bytes from offset \<open>256 * k\<close> on, at most 256, and addressed at
  \<open>address\<close> plus that offset.
\<close>

definition write_segments :: "int \<Rightarrow> bytes \<Rightarrow> (int \<times> bytes) list" where
  "write_segments address data =
     map (\<lambda>k. (address + 256 * int k, take 256 (drop (256 * k) data)))
       [0 ..< (length data + 255) div 256]"

text \<open>
  One wire read command of \<open>n\<close> bytes at \<open>a\<close>: the opcode frame, the address frame,
  and the frame of the length-minus-one byte.
\<close>

definition wire_read :: "int \<Rightarrow> int \<Rightarrow> bytes list" where
  "wire_read a n = [frame_of [0x11], frame_of (be32 a), frame_of [word_of_int (n - 1)]]"

text \<open>
  The segments of a read of \<open>sz\<close> bytes at \<open>address\<close>, each with its address and its
  length: consecutive, of 256 bytes, but for the last one, which takes what is left.
\<close>

definition read_segments :: "int \<Rightarrow> int \<Rightarrow> (int \<times> int) list" where
  "read_segments address sz =
     map (\<lambda>k. (address + 256 * int k, min 256 (sz - 256 * int k)))
       [0 ..< nat ((sz + 255) div 256)]"

text \<open>
  A naive single-shot read of a memory \<open>mem\<close>: the \<open>sz\<close> bytes from \<open>address\<close> on.
\<close>

definition naive_read :: "(int \<Rightarrow> byte) \<Rightarrow> int \<Rightarrow> int \<Rightarrow> bytes" where
  "naive_read mem address sz = map mem [address .. address + sz - 1]"

text \<open>
  The calls a progress callback receives from a read or write of \<open>total\<close> bytes: one
  with \<open>(0, total)\<close> before the first segment, and one after each segment with the bytes
  done so far. \<open>segment_calls total done remaining\<close> are the calls still to come when
  \<open>done\<close> bytes are done and \<open>remaining\<close> are left.
\<close>

definition segment_calls :: "int \<Rightarrow> int \<Rightarrow> int \<Rightarrow> (int \<times> int) list" where
  "segment_calls total_size done_size remaining =
     map (\<lambda>k. (done_size + min remaining (256 * (int k + 1)), total_size))
       [0 ..< nat ((remaining + 255) div 256)]"

definition progress_calls :: "int \<Rightarrow> (int \<times> int) list" where
  "progress_calls total_size = (0, total_size) # segment_calls total_size 0 total_size"

text \<open>
  The callback returns from each of the calls \<open>calls\<close>, made in turn after the calls
  \<open>before\<close>; no callback at all returns from every call.
\<close>

fun callback_returns :: "progress_cb \<Rightarrow> (int \<times> int) list \<Rightarrow> (int \<times> int) list \<Rightarrow> bool" where
  "callback_returns f before [] = True"
| "callback_returns f before (x # calls) =
     (f before (fst x) (snd x) = None \<and> callback_returns f (before @ [x]) calls)"

definition returns_on ::
  "progress_cb option \<Rightarrow> (int \<times> int) list \<Rightarrow> (int \<times> int) list \<Rightarrow> bool" where
  "returns_on progress_cb before calls =
     (case progress_cb of None \<Rightarrow> True | Some f \<Rightarrow> callback_returns f before calls)"

text \<open>The calls a supplied callback has received after them; none when there is no callback.\<close>

definition calls_received ::
  "progress_cb option \<Rightarrow> (int \<times> int) list \<Rightarrow> (int \<times> int) list" where
  "calls_received progress_cb calls = (case progress_cb of None \<Rightarrow> [] | Some f \<Rightarrow> calls)"

section \<open>Stub transports\<close>

text \<open>
  A transport with an empty log, a script of bytes ready to be read and a peer; a peer
  that never answers; and a client on such a transport, with a given capability set.
\<close>

definition stub_transport :: "bytes \<Rightarrow> (bytes list \<Rightarrow> bytes) \<Rightarrow> transport" where
  "stub_transport script dev = \<lparr>written = [], incoming = script, device = dev\<rparr>"

definition silent :: "bytes list \<Rightarrow> bytes" where
  "silent log = []"

text \<open>A peer that acknowledges every write.\<close>

definition ack_all :: "bytes list \<Rightarrow> bytes" where
  "ack_all log = [0x79]"

text \<open>
  A peer that serves the read command from a memory \<open>mem\<close>, as the bootloader does: it
  acknowledges the opcode frame \<open>0x11 0xEE\<close>, then an address frame of four bytes and
  their exclusive or, then answers a frame of a length-minus-one byte \<open>n\<close> and its
  complement with an acknowledgement and the \<open>n + 1\<close> bytes of memory from the address
  on. Any other frame is answered with NACK, and the command is abandoned.
\<close>

datatype device_state = Idle | AwaitAddress | AwaitLength int

fun memory_step :: "(int \<Rightarrow> byte) \<Rightarrow> device_state \<Rightarrow> bytes \<Rightarrow> device_state \<times> bytes" where
  "memory_step mem Idle fr =
     (if fr = [0x11, 0xEE] then (AwaitAddress, [0x79]) else (Idle, [0x1F]))"
| "memory_step mem AwaitAddress fr =
     (case fr of
        [a3, a2, a1, a0, cs] \<Rightarrow>
          if cs = a3 XOR a2 XOR a1 XOR a0
          then (AwaitLength (((uint a3 * 256 + uint a2) * 256 + uint a1) * 256 + uint a0),
                [0x79])
          else (Idle, [0x1F])
      | _ \<Rightarrow> (Idle, [0x1F]))"
| "memory_step mem (AwaitLength a) fr =
     (case fr of
        [n, cs] \<Rightarrow>
          if cs = NOT n then (Idle, 0x79 # map mem [a .. a + uint n]) else (Idle, [0x1F])
      | _ \<Rightarrow> (Idle, [0x1F]))"

definition memory_run :: "(int \<Rightarrow> byte) \<Rightarrow> bytes list \<Rightarrow> device_state \<times> bytes" where
  "memory_run mem log = foldl (\<lambda>(s, _) fr. memory_step mem s fr) (Idle, []) log"

definition memory_device :: "(int \<Rightarrow> byte) \<Rightarrow> bytes list \<Rightarrow> bytes" where
  "memory_device mem log = snd (memory_run mem log)"

definition stub_client :: "CmdType set \<Rightarrow> transport \<Rightarrow> client" where
  "stub_client caps t = \<lparr>conn = t, client_version = 0x22, cmd_types = caps, cb_calls = []\<rparr>"

section \<open>The checksum\<close>

lemma mask_byte: "0xFF AND uint (w :: byte) = uint w"
proof -
  have "uint w < 2 ^ 8" using uint_lt2p [of w] by simp
  then have "take_bit 8 (uint w) = uint w"
    by (simp add: take_bit_int_eq_self)
  then show ?thesis
    by (simp add: take_bit_eq_mask mask_eq_exp_minus_1 and.commute)
qed

lemma mask_step: "0xFF AND (uint (w :: byte) XOR uint b) = uint (w XOR b)"
  using mask_byte [of "w XOR b"] by (simp add: uint_xor)

lemma mask_not: "0xFF AND NOT (uint (w :: byte)) = uint (NOT w)"
proof -
  have "uint (NOT w) = take_bit 8 (NOT (uint w))"
    by (simp add: unsigned_not_eq)
  then show ?thesis
    by (simp add: take_bit_eq_mask mask_eq_exp_minus_1 and.commute)
qed

lemma checksum_loop_bytes:
  "checksum_loop (map uint (body :: bytes)) count (uint w) out =
     (count + int (length body), uint (foldl (XOR) w body), out @ map uint body)"
proof (induction body arbitrary: count w out)
  case Nil
  show ?case by simp
next
  case (Cons a body)
  have "checksum_loop (map uint (a # body)) count (uint w) out =
        checksum_loop (map uint body) (count + 1) (uint (w XOR a)) (out @ [uint a])"
    by (simp only: list.map checksum_loop.simps mask_step)
  then show ?case
    by (simp add: Cons.IH)
qed

lemma foldl_xor: "foldl (XOR) (w :: byte) body = w XOR foldr (XOR) body 0"
  by (induction body arbitrary: w) (simp_all add: xor.assoc)

lemma bytes_py_uint: "bytes_py (map uint (body :: bytes)) = Inr body"
  by (simp add: bytes_py_def list_all_iff uint_lt2p [where 'a = 8, simplified] map_idI)

lemma data_with_checksum_bytes:
  assumes "(body :: bytes) \<noteq> []"
  shows "data_with_checksum (map uint body) = Inr (body @ [frame_checksum body])"
proof -
  have loop: "checksum_loop (map uint body) 0 0 [] =
      (int (length body), uint (xor_all body), map uint body)"
    using checksum_loop_bytes [of body 0 0 "[]"] by (simp add: foldl_xor xor_all_def)
  show ?thesis
  proof (cases "length body = 1")
    case True
    then obtain b where body: "body = [b]"
      by (cases body) auto
    have "get_data_with_checksum (map uint body) = Inr (map uint (body @ [NOT b]))"
      using loop by (simp add: get_data_with_checksum_def body xor_all_def mask_not)
    then show ?thesis
      unfolding data_with_checksum_def
      by (simp only: sum.case bytes_py_uint) (simp add: body frame_checksum_def)
  next
    case False
    moreover have "length body \<noteq> 0"
      using assms by simp
    ultimately have "2 \<le> length body"
      by linarith
    then have "get_data_with_checksum (map uint body) = Inr (map uint (body @ [xor_all body]))"
      using loop assms by (simp add: get_data_with_checksum_def)
    then show ?thesis
      unfolding data_with_checksum_def
      using False by (simp only: sum.case bytes_py_uint) (simp add: frame_checksum_def)
  qed
qed

lemma send_frame:
  "data_with_checksum data = Inr frame \<Longrightarrow>
   send data t =
     receive_ack (t\<lparr>written := written t @ [frame],
                     incoming := incoming t @ device t (written t @ [frame])\<rparr>)"
  by (simp add: send_def and_then_def lift_result_def serial_write_def Let_def)

lemma receive_ack_written: "written (snd (receive_ack t)) = written t"
  by (simp add: receive_ack_def and_then_def serial_read_def raise_def lift_result_def
      split: list.splits)

text \<open>
  C1. For every non-empty sequence of body bytes, the frame built for transmission is
  the body followed by exactly one checksum byte: the exclusive or of all the body bytes,
  or the bitwise complement of the byte when the body has exactly one byte. That frame is
  what \<open>_send\<close> writes, in one write.
\<close>

theorem frame_is_body_then_checksum:
  "(body :: bytes) \<noteq> [] \<Longrightarrow>
     data_with_checksum (map uint body) =
       Inr (body @ [if length body = 1 then NOT (hd body) else foldr (XOR) body 0]) \<and>
     written (snd (send (map uint body) t)) =
       written t @ [body @ [if length body = 1 then NOT (hd body) else foldr (XOR) body 0]]"
proof -
  assume ne: "body \<noteq> []"
  have frame: "data_with_checksum (map uint body) = Inr (body @ [frame_checksum body])"
    using ne by (rule data_with_checksum_bytes)
  have "written (snd (send (map uint body) t)) = written t @ [body @ [frame_checksum body]]"
    by (simp add: send_frame [OF frame] receive_ack_written)
  with frame show ?thesis
    by (simp add: frame_checksum_def xor_all_def)
qed

theorem frame_is_body_then_checksum_witness:
  "data_with_checksum [0x43] = Inr [0x43, 0xBC] \<and>
   data_with_checksum [0x00, 0x2A] = Inr [0x00, 0x2A, 0x2A] \<and>
   data_with_checksum [0x08, 0x00, 0x01, 0x00] = Inr [0x08, 0x00, 0x01, 0x00, 0x09]"
  using frame_is_body_then_checksum [of "[0x43]"]
    frame_is_body_then_checksum [of "[0x00, 0x2A]"]
    frame_is_body_then_checksum [of "[0x08, 0x00, 0x01, 0x00]"]
  by simp

section \<open>Acknowledgement and transmission\<close>

lemma hex_digit_inj: "i < 16 \<Longrightarrow> j < 16 \<Longrightarrow> hex_digit i = hex_digit j \<Longrightarrow> i = j"
proof -
  assume a: "i < 16" "j < 16" "hex_digit i = hex_digit j"
  have d: "distinct ''0123456789abcdef''" by simp
  have l: "length ''0123456789abcdef'' = 16" by simp
  from a have "''0123456789abcdef'' ! i = ''0123456789abcdef'' ! j"
    by (simp add: hex_digit_def)
  with d l a show "i = j"
    by (simp only: nth_eq_iff_index_eq)
qed

lemma format_02x_inj: "format_02x b' = format_02x b \<Longrightarrow> b' = b"
proof -
  assume "format_02x b' = format_02x b"
  then have "hex_digit (unat b' div 16) = hex_digit (unat b div 16)"
    and "hex_digit (unat b' mod 16) = hex_digit (unat b mod 16)"
    by (simp_all add: format_02x_def)
  moreover have "unat b < 256" "unat b' < 256"
    using unsigned_less [of b, where ?'a = nat] unsigned_less [of b', where ?'a = nat] by simp_all
  ultimately have "unat b' div 16 = unat b div 16" "unat b' mod 16 = unat b mod 16"
    by (auto intro!: hex_digit_inj simp: less_mult_imp_div_less)
  then have "unat b' = unat b"
    by (metis div_mult_mod_eq)
  then show "b' = b"
    by (simp add: word_unat_eq_iff)
qed

lemma receive_ack_byte:
  "incoming t = b # rest \<Longrightarrow>
   receive_ack t =
     (if b = 0x79 then Inr ()
      else if b = 0x1F then Inl (Exception ''received NACK'')
      else Inl (Exception (''received unknown response: 0x'' @ format_02x b)),
      t\<lparr>incoming := rest\<rparr>)"
  by (simp add: receive_ack_def and_then_def serial_read_def raise_def lift_result_def)

lemma uint_byte_of_int: "0 \<le> k \<Longrightarrow> k < 256 \<Longrightarrow> uint (word_of_int k :: byte) = k"
  by (simp add: unsigned_of_int take_bit_int_eq_self)

lemma send_opcode_acked:
  assumes frame: "data_with_checksum data = Inr frame"
    and ack: "incoming t @ device t (written t @ [frame]) = 0x79 # rest"
  shows "send data t = (Inr (), t\<lparr>written := written t @ [frame], incoming := rest\<rparr>)"
  using ack by (simp add: send_frame [OF frame] receive_ack_byte [where rest = rest])

lemma written_send:
  "data_with_checksum data = Inr frame \<Longrightarrow> written (snd (send data t)) = written t @ [frame]"
  by (simp add: send_frame receive_ack_written)

lemma frame_erase: "data_with_checksum [0x43] = Inr [0x43, 0xBC]"
  using data_with_checksum_bytes [of "[0x43]"] by (simp add: frame_checksum_def)

lemma frame_sentinel: "data_with_checksum [0xFF] = Inr [0xFF, 0x00]"
  using data_with_checksum_bytes [of "[0xFF]"] by (simp add: frame_checksum_def)

lemma receive_ack_cases:
  "receive_ack t =
     (case incoming t of
        [] \<Rightarrow> (Inl ConnectionError, t)
      | b # rest \<Rightarrow>
          (if b = 0x79 then Inr ()
           else if b = 0x1F then Inl (Exception ''received NACK'')
           else Inl (Exception (''received unknown response: 0x'' @ format_02x b)),
           t\<lparr>incoming := rest\<rparr>))"
  by (cases "incoming t")
    (simp_all add: receive_ack_def and_then_def serial_read_def raise_def lift_result_def)

lemma send_bytes:
  "(body :: bytes) \<noteq> [] \<Longrightarrow>
   send (map uint body) t =
     receive_ack (t\<lparr>written := written t @ [frame_of body],
                     incoming := incoming t @ device t (written t @ [frame_of body])\<rparr>)"
  using send_frame [OF data_with_checksum_bytes, of body t] by (simp add: frame_of_def)

lemma send_bytes_acked:
  assumes "(body :: bytes) \<noteq> []"
    and "incoming t @ device t (written t @ [frame_of body]) = 0x79 # rest"
  shows "send (map uint body) t =
     (Inr (), t\<lparr>written := written t @ [frame_of body], incoming := rest\<rparr>)"
  using assms by (simp add: send_bytes receive_ack_cases)

lemma word_of_int_mod_256: "(word_of_int (x mod 256) :: byte) = word_of_int x"
  by (simp add: word_of_int_eq_iff take_bit_eq_mod)

lemma pack_be32: "0 \<le> a \<Longrightarrow> a \<le> 0xFFFFFFFF \<Longrightarrow> pack_be_u32 a = Inr (be32 a)"
  by (simp add: pack_be_u32_def be32_def word_of_int_mod_256)

lemma frame_single: "frame_of [b] = [b, NOT b]"
  by (simp add: frame_of_def frame_checksum_def)

lemma frame_multi: "2 \<le> length body \<Longrightarrow> frame_of body = body @ [xor_all body]"
  by (simp add: frame_of_def frame_checksum_def)

lemma uint_byte_less: "uint (m :: byte) < 256"
  using uint_lt2p [of m] by simp

text \<open>
  C6. \<open>_receive_ack\<close> reads exactly one byte from the transport (the rest of the
  stream stays, nothing is written) and succeeds silently on \<open>0x79\<close>, fails with
  \<open>Exception('received NACK')\<close> on \<open>0x1F\<close>, and fails on every other byte with
  \<open>Exception('received unknown response: 0x..')\<close>, whose two hexadecimal digits
  determine the byte.
\<close>

theorem receive_ack_one_byte:
  "incoming t = b # rest \<Longrightarrow>
   receive_ack t =
     (if b = 0x79 then Inr ()
      else if b = 0x1F then Inl (Exception ''received NACK'')
      else Inl (Exception (''received unknown response: 0x'' @ format_02x b)),
      t\<lparr>incoming := rest\<rparr>) \<and>
   (\<forall>b'. format_02x b' = format_02x b \<longrightarrow> b' = b)"
  by (simp add: receive_ack_byte format_02x_inj)

theorem receive_ack_one_byte_witness:
  "receive_ack (stub_transport [0x79, 0x55] silent) =
     (Inr (), stub_transport [0x55] silent) \<and>
   receive_ack (stub_transport [0x1F, 0x55] silent) =
     (Inl (Exception ''received NACK''), stub_transport [0x55] silent) \<and>
   receive_ack (stub_transport [0x7A, 0x55] silent) =
     (Inl (Exception ''received unknown response: 0x7a''), stub_transport [0x55] silent)"
  using receive_ack_one_byte [of "stub_transport [0x79, 0x55] silent" "0x79" "[0x55]"]
    receive_ack_one_byte [of "stub_transport [0x1F, 0x55] silent" "0x1F" "[0x55]"]
    receive_ack_one_byte [of "stub_transport [0x7A, 0x55] silent" "0x7A" "[0x55]"]
  by (simp add: stub_transport_def format_02x_def hex_digit_def)

section \<open>Erase\<close>

text \<open>
  C3, as amended. With \<open>pages=None\<close> the engine writes two frames: the erase opcode
  alone (\<open>0x43\<close> and its complement \<open>0xBC\<close>) and, once that frame is acknowledged,
  the sentinel \<open>0xFF\<close> alone (with its complement \<open>0x00\<close>). With an explicit list of
  1 to 255 pages, each a byte, the acknowledged opcode frame is followed by one frame
  whose body is the count-minus-one byte followed by each page index byte, and whose
  checksum is the exclusive or of that body.
\<close>

theorem erase_frames:
  assumes ack: "incoming t @ device t (written t @ [[0x43, 0xBC]]) = 0x79 # rest"
  shows "written (snd (conn_erase None t)) = written t @ [[0x43, 0xBC], [0xFF, 0x00]] \<and>
    (1 \<le> length pages \<and> length pages \<le> 255 \<longrightarrow>
       written (snd (conn_erase (Some (map uint pages)) t)) =
         written t @ [[0x43, 0xBC],
           (word_of_int (int (length pages) - 1) # pages) @
             [foldr (XOR) (word_of_int (int (length pages) - 1) # pages) 0]])"
proof -
  let ?t1 = "t\<lparr>written := written t @ [[0x43, 0xBC]], incoming := rest\<rparr>"
  have op: "send [0x43] t = (Inr (), ?t1)"
    using frame_erase ack by (rule send_opcode_acked)
  have all: "written (snd (conn_erase None t)) = written t @ [[0x43, 0xBC], [0xFF, 0x00]]"
    by (simp add: conn_erase_def and_then_def op written_send [OF frame_sentinel])
  have some: "written (snd (conn_erase (Some (map uint pages)) t)) =
         written t @ [[0x43, 0xBC],
           (word_of_int (int (length pages) - 1) # pages) @
             [foldr (XOR) (word_of_int (int (length pages) - 1) # pages) 0]]"
    if len: "1 \<le> length pages" "length pages \<le> 255"
  proof -
    let ?n = "word_of_int (int (length pages) - 1) :: byte"
    have "uint ?n = int (length pages) - 1"
      using len by (intro uint_byte_of_int) linarith+
    then have body: "(int (length pages) - 1) # map uint pages = map uint (?n # pages)"
      by simp
    have "data_with_checksum ((int (length pages) - 1) # map uint pages) =
        Inr ((?n # pages) @ [frame_checksum (?n # pages)])"
      unfolding body by (rule data_with_checksum_bytes) simp
    moreover have "frame_checksum (?n # pages) = foldr (XOR) (?n # pages) 0"
      using len by (cases pages) (simp_all add: frame_checksum_def xor_all_def)
    ultimately have frame: "data_with_checksum ((int (length pages) - 1) # map uint pages) =
        Inr ((?n # pages) @ [foldr (XOR) (?n # pages) 0])"
      by simp
    have "pages \<noteq> []"
      using len by auto
    then show ?thesis
      using len by (simp add: conn_erase_def and_then_def op written_send [OF frame])
  qed
  from all some show ?thesis by blast
qed

theorem erase_frames_witness:
  "written (snd (conn_erase None (stub_transport [0x79, 0x79] silent))) =
     [[0x43, 0xBC], [0xFF, 0x00]] \<and>
   written (snd (conn_erase (Some [3, 4]) (stub_transport [0x79, 0x79] silent))) =
     [[0x43, 0xBC], [0x01, 0x03, 0x04, 0x06]]"
  using erase_frames [of "stub_transport [0x79, 0x79] silent" "[0x79]" "[3, 4]"]
  by (simp add: stub_transport_def silent_def)

text \<open>
  C3, as stated, fails: a frame whose body is the opcode plus the sentinel would be
  \<open>0x43 0xFF 0xBC\<close>; against a peer that acknowledges both frames, erase with
  \<open>pages=None\<close> writes \<open>0x43 0xBC\<close> and then \<open>0xFF 0x00\<close>, and no such frame.
\<close>

theorem erase_all_is_two_frames_counterexample:
  "data_with_checksum [cmd_value ERASE, 0xFF] = Inr [0x43, 0xFF, 0xBC] \<and>
   conn_erase None (stub_transport [0x79, 0x79] silent) =
     (Inr (), \<lparr>written = [[0x43, 0xBC], [0xFF, 0x00]], incoming = [], device = silent\<rparr>) \<and>
   [0x43, 0xFF, 0xBC] \<notin> set (written (snd (conn_erase None (stub_transport [0x79, 0x79] silent))))"
proof -
  have a: "data_with_checksum [cmd_value ERASE, 0xFF] = Inr [0x43, 0xFF, 0xBC]"
    using data_with_checksum_bytes [of "[0x43, 0xFF]"]
    by (simp add: frame_checksum_def xor_all_def)
  have b: "conn_erase None (stub_transport [0x79, 0x79] silent) =
     (Inr (), \<lparr>written = [[0x43, 0xBC], [0xFF, 0x00]], incoming = [], device = silent\<rparr>)"
    by (simp add: conn_erase_def stub_transport_def silent_def
        send_opcode_acked [OF frame_erase, where rest = "[0x79]"]
        send_opcode_acked [OF frame_sentinel, where rest = "[]"] and_then_def)
  from a b show ?thesis by simp
qed

text \<open>
  C7. \<open>erase\<close> with an explicit page list of 0 entries or of more than 255 entries
  fails with \<open>ValueError('unsupported pages length')\<close> and leaves the transport as it
  was: nothing is written. This holds for \<open>Connection.erase\<close>, and for
  \<open>Client.erase\<close> on a device that advertises ERASE.
\<close>

theorem erase_page_count_bounds:
  "length pages = 0 \<or> length pages > 255 \<Longrightarrow>
   conn_erase (Some pages) t = (Inl (ValueError ''unsupported pages length''), t) \<and>
   (ERASE \<in> cmd_types c \<longrightarrow>
      client_erase (Some pages) c = (Inl (ValueError ''unsupported pages length''), c))"
  by (auto simp add: conn_erase_def client_erase_def raise_def on_conn_def)

theorem erase_page_count_bounds_witness:
  "conn_erase (Some []) (stub_transport [] silent) =
     (Inl (ValueError ''unsupported pages length''), stub_transport [] silent) \<and>
   client_erase (Some (replicate 256 7)) (stub_client {ERASE} (stub_transport [] silent)) =
     (Inl (ValueError ''unsupported pages length''),
      stub_client {ERASE} (stub_transport [] silent))"
  using erase_page_count_bounds [of "[]" "stub_transport [] silent"
      "stub_client {ERASE} (stub_transport [] silent)"]
    erase_page_count_bounds [of "replicate 256 7" "stub_transport [] silent"
      "stub_client {ERASE} (stub_transport [] silent)"]
  by (simp add: stub_client_def)

section \<open>Capabilities\<close>

text \<open>
  C2. Every high-level operation of \<open>Client\<close> (\<open>get_info\<close>, \<open>read\<close>, \<open>write\<close>,
  \<open>erase\<close>, \<open>execute\<close>, and \<open>set_protection\<close> with each of its four kinds) whose
  command type is absent from the capability set fails with the exception that names the
  missing capability, and leaves the client as it was: no byte is written to the
  transport, none is read, and the progress callback is not called.
\<close>

theorem capability_gate:
  "(GET_CHIP_ID \<notin> cmd_types c \<longrightarrow>
      get_info c = (Inl (Exception ''get chip id not supported''), c)) \<and>
   (GET_CHIP_ID \<in> cmd_types c \<and> READ \<notin> cmd_types c \<longrightarrow>
      get_info c = (Inl (Exception ''read not supported''), c)) \<and>
   (READ \<notin> cmd_types c \<longrightarrow>
      client_read start_address sz progress_cb c = (Inl (Exception ''read not supported''), c)) \<and>
   (WRITE \<notin> cmd_types c \<longrightarrow>
      client_write start_address data progress_cb c =
        (Inl (Exception ''write not supported''), c)) \<and>
   (ERASE \<notin> cmd_types c \<longrightarrow>
      client_erase pages c = (Inl (Exception ''erase not supported''), c)) \<and>
   (EXECUTE \<notin> cmd_types c \<longrightarrow>
      client_execute start_address c = (Inl (Exception ''execute not supported''), c)) \<and>
   (PROTECT_READ \<notin> cmd_types c \<longrightarrow>
      set_protection Protection_PROTECT_READ c =
        (Inl (Exception ''protect read not supported''), c)) \<and>
   (UNPROTECT_READ \<notin> cmd_types c \<longrightarrow>
      set_protection Protection_UNPROTECT_READ c =
        (Inl (Exception ''unprotect read not supported''), c)) \<and>
   (PROTECT_WRITE \<notin> cmd_types c \<longrightarrow>
      set_protection Protection_PROTECT_WRITE c =
        (Inl (Exception ''protect write not supported''), c)) \<and>
   (UNPROTECT_WRITE \<notin> cmd_types c \<longrightarrow>
      set_protection Protection_UNPROTECT_WRITE c =
        (Inl (Exception ''unprotect write not supported''), c))"
  by (simp add: get_info_def client_read_def client_write_def client_erase_def
      client_execute_def set_protection_def raise_def)

theorem capability_gate_witness:
  "get_info (stub_client {} (stub_transport [] silent)) =
     (Inl (Exception ''get chip id not supported''), stub_client {} (stub_transport [] silent)) \<and>
   get_info (stub_client {GET_CHIP_ID} (stub_transport [] silent)) =
     (Inl (Exception ''read not supported''),
      stub_client {GET_CHIP_ID} (stub_transport [] silent)) \<and>
   client_read 0x08000000 300 (Some print_progress) (stub_client {} (stub_transport [] silent)) =
     (Inl (Exception ''read not supported''), stub_client {} (stub_transport [] silent)) \<and>
   client_write 0x08000000 [1, 2, 3] (Some print_progress) (stub_client {} (stub_transport [] silent)) =
     (Inl (Exception ''write not supported''), stub_client {} (stub_transport [] silent)) \<and>
   client_erase None (stub_client {} (stub_transport [] silent)) =
     (Inl (Exception ''erase not supported''), stub_client {} (stub_transport [] silent)) \<and>
   client_execute 0x08000000 (stub_client {} (stub_transport [] silent)) =
     (Inl (Exception ''execute not supported''), stub_client {} (stub_transport [] silent)) \<and>
   set_protection Protection_PROTECT_READ (stub_client {} (stub_transport [] silent)) =
     (Inl (Exception ''protect read not supported''),
      stub_client {} (stub_transport [] silent)) \<and>
   set_protection Protection_UNPROTECT_READ (stub_client {} (stub_transport [] silent)) =
     (Inl (Exception ''unprotect read not supported''),
      stub_client {} (stub_transport [] silent)) \<and>
   set_protection Protection_PROTECT_WRITE (stub_client {} (stub_transport [] silent)) =
     (Inl (Exception ''protect write not supported''),
      stub_client {} (stub_transport [] silent)) \<and>
   set_protection Protection_UNPROTECT_WRITE (stub_client {} (stub_transport [] silent)) =
     (Inl (Exception ''unprotect write not supported''),
      stub_client {} (stub_transport [] silent))"
  using capability_gate [of "stub_client {} (stub_transport [] silent)"
      "0x08000000" 300 "Some print_progress" "[1, 2, 3]" None]
    capability_gate [of "stub_client {GET_CHIP_ID} (stub_transport [] silent)"
      "0x08000000" 300 "Some print_progress" "[1, 2, 3]" None]
  by (simp add: stub_client_def)

text \<open>
  C9, as amended. \<open>set_protection\<close> with the protect-write kind always fails and leaves
  the client as it was: with \<open>NotImplementedError\<close> when the device advertises
  PROTECT_WRITE, and with \<open>Exception('protect write not supported')\<close>, the fault of a
  missing capability, when it does not.
\<close>

theorem protect_write_always_fails:
  "set_protection Protection_PROTECT_WRITE c =
     (Inl (if PROTECT_WRITE \<in> cmd_types c then NotImplementedError
           else Exception ''protect write not supported''), c)"
  by (simp add: set_protection_def raise_def on_conn_def protect_write_def)

theorem protect_write_always_fails_witness:
  "set_protection Protection_PROTECT_WRITE
       (stub_client {PROTECT_WRITE} (stub_transport [] silent)) =
     (Inl NotImplementedError, stub_client {PROTECT_WRITE} (stub_transport [] silent)) \<and>
   set_protection Protection_PROTECT_WRITE (stub_client {READ} (stub_transport [] silent)) =
     (Inl (Exception ''protect write not supported''),
      stub_client {READ} (stub_transport [] silent))"
  using protect_write_always_fails [of "stub_client {PROTECT_WRITE} (stub_transport [] silent)"]
    protect_write_always_fails [of "stub_client {READ} (stub_transport [] silent)"]
  by (simp add: stub_client_def)

text \<open>
  C9, as stated, fails: on a device that advertises no capability the fault is the one
  of the missing capability, not \<open>NotImplementedError\<close>.
\<close>

theorem protect_write_without_capability_counterexample:
  "fst (set_protection Protection_PROTECT_WRITE (stub_client {} (stub_transport [] silent))) =
     Inl (Exception ''protect write not supported'') \<and>
   fst (set_protection Protection_PROTECT_WRITE (stub_client {} (stub_transport [] silent))) \<noteq>
     Inl NotImplementedError"
  by (simp add: set_protection_def raise_def stub_client_def)

section \<open>Device information\<close>

lemma conn_read_script_byte:
  assumes dev: "device t = silent"
    and inc: "incoming t = 0x79 # 0x79 # 0x79 # data @ rest"
    and len: "int (length data) = uint m + 1"
    and a: "0 \<le> a" "a \<le> 0xFFFFFFFF"
  shows "conn_read a (uint (m :: byte) + 1) t =
    (Inr data, t\<lparr>written := written t @ [frame_of [0x11], frame_of (be32 a), frame_of [m]],
      incoming := rest\<rparr>)"
proof -
  let ?t1 = "t\<lparr>written := written t @ [frame_of [0x11]], incoming := 0x79 # 0x79 # data @ rest\<rparr>"
  let ?t2 = "t\<lparr>written := written t @ [frame_of [0x11], frame_of (be32 a)],
      incoming := 0x79 # data @ rest\<rparr>"
  let ?t3 = "t\<lparr>written := written t @ [frame_of [0x11], frame_of (be32 a), frame_of [m]],
      incoming := data @ rest\<rparr>"
  have s1: "send [0x11] t = (Inr (), ?t1)"
    using send_bytes_acked [of "[0x11]" t "0x79 # 0x79 # data @ rest"] dev inc
    by (simp add: silent_def)
  have s2: "send (map uint (be32 a)) ?t1 = (Inr (), ?t2)"
    using send_bytes_acked [of "be32 a" ?t1 "0x79 # data @ rest"] dev
    by (simp add: silent_def be32_def)
  have s3: "send [uint m] ?t2 = (Inr (), ?t3)"
    using send_bytes_acked [of "[m]" ?t2 "data @ rest"] dev
    by (simp add: silent_def)
  have s4: "serial_read (uint m + 1) ?t3 = (Inr data, ?t3\<lparr>incoming := rest\<rparr>)"
    using len by (auto simp add: serial_read_def)
  have le: "\<not> uint m + 1 > 0x100"
    using uint_byte_less [of m] by simp
  show ?thesis
    unfolding conn_read_def
    by (simp only: le if_False and_then_def lift_result_def pack_be32 [OF a] s1 s2 s3 s4
        prod.case sum.case cmd_value.simps add_diff_cancel_right')
      simp
qed

lemma conn_read_script:
  assumes dev: "device t = silent"
    and inc: "incoming t = 0x79 # 0x79 # 0x79 # data @ rest"
    and len: "int (length data) = n"
    and n: "1 \<le> n" "n \<le> 256"
    and a: "0 \<le> a" "a \<le> 0xFFFFFFFF"
  shows "conn_read a n t =
    (Inr data, t\<lparr>written := written t @
        [frame_of [0x11], frame_of (be32 a), frame_of [word_of_int (n - 1)]],
      incoming := rest\<rparr>)"
proof -
  have m: "uint (word_of_int (n - 1) :: byte) = n - 1"
    using n by (intro uint_byte_of_int) linarith+
  then have "int (length data) = uint (word_of_int (n - 1) :: byte) + 1"
    using len by simp
  from conn_read_script_byte [OF dev inc this a] show ?thesis
    by (simp only: m) simp
qed

lemma get_chip_id_script:
  assumes dev: "device t = silent"
    and inc: "incoming t = 0x79 # count # chip @ 0x79 # rest"
    and len: "int (length chip) = uint count + 1"
  shows "get_chip_id t =
    (Inr (int_from_bytes_big chip),
     t\<lparr>written := written t @ [frame_of [0x02]], incoming := rest\<rparr>)"
proof -
  let ?t1 = "t\<lparr>written := written t @ [frame_of [0x02]],
      incoming := count # chip @ 0x79 # rest\<rparr>"
  have s1: "send [0x02] t = (Inr (), ?t1)"
    using send_bytes_acked [of "[0x02]" t "count # chip @ 0x79 # rest"] dev inc
    by (simp add: silent_def)
  have s2: "serial_read 1 ?t1 = (Inr [count], ?t1\<lparr>incoming := chip @ 0x79 # rest\<rparr>)"
    by (simp add: serial_read_def)
  have s3: "serial_read (uint count + 1) (?t1\<lparr>incoming := chip @ 0x79 # rest\<rparr>) =
      (Inr chip, ?t1\<lparr>incoming := 0x79 # rest\<rparr>)"
    using len by (auto simp add: serial_read_def)
  have s4: "receive_ack (?t1\<lparr>incoming := 0x79 # rest\<rparr>) = (Inr (), ?t1\<lparr>incoming := rest\<rparr>)"
    by (simp add: receive_ack_cases)
  show ?thesis
    unfolding get_chip_id_def
    by (simp only: and_then_def lift_result_def s1 s2 s3 s4 prod.case sum.case list.case
        cmd_value.simps)
      simp
qed

text \<open>
  C8. \<open>get_info\<close> on a device that advertises GET_CHIP_ID and READ, and that
  acknowledges every frame: after the chip id and the 12 bytes at \<open>0x1FFFF7E8\<close>, it
  issues the wire read of 2 bytes (length byte \<open>0x01\<close>) at the address
  \<open>0x1FFFF7E0\<close>, and \<open>flash_size\<close> is the two bytes \<open>b0 b1\<close> received, read as a
  little-endian 16-bit integer, times 1024. With the bytes \<open>0x00 0x04\<close> it is 1,048,576.
\<close>

theorem get_info_flash_size:
  assumes caps: "GET_CHIP_ID \<in> cmd_types c" "READ \<in> cmd_types c"
    and dev: "device (conn c) = silent"
    and inc: "incoming (conn c) =
        0x79 # count # chip @ 0x79 # 0x79 # 0x79 # 0x79 # uid @ 0x79 # 0x79 # 0x79 # [b0, b1] @ rest"
    and chip: "int (length chip) = uint count + 1"
    and uid: "length uid = 12"
  shows "get_info c =
    (Inr \<lparr>version = client_version c, chip_id = int_from_bytes_big chip, device_id = uid,
          flash_size = (uint b0 + 256 * uint b1) * 1024\<rparr>,
     c\<lparr>conn := (conn c)\<lparr>written := written (conn c) @
          [[0x02, 0xFD],
           [0x11, 0xEE], [0x1F, 0xFF, 0xF7, 0xE8, 0xFF], [0x0B, 0xF4],
           [0x11, 0xEE], [0x1F, 0xFF, 0xF7, 0xE0, 0xF7], [0x01, 0xFE]],
        incoming := rest\<rparr>\<rparr>) \<and>
    (b0 = 0x00 \<and> b1 = 0x04 \<longrightarrow> flash_size (projr (fst (get_info c))) = 1048576)"
proof -
  let ?t = "conn c"
  let ?t1 = "?t\<lparr>written := written ?t @ [frame_of [0x02]],
      incoming := 0x79 # 0x79 # 0x79 # uid @ 0x79 # 0x79 # 0x79 # b0 # b1 # rest\<rparr>"
  let ?t2 = "?t\<lparr>written := written ?t @ [frame_of [0x02], frame_of [0x11],
        frame_of (be32 0x1FFFF7E8), frame_of [0x0B]],
      incoming := 0x79 # 0x79 # 0x79 # b0 # b1 # rest\<rparr>"
  let ?t3 = "?t\<lparr>written := written ?t @ [frame_of [0x02], frame_of [0x11],
        frame_of (be32 0x1FFFF7E8), frame_of [0x0B], frame_of [0x11],
        frame_of (be32 0x1FFFF7E0), frame_of [0x01]],
      incoming := rest\<rparr>"
  have s1: "get_chip_id ?t = (Inr (int_from_bytes_big chip), ?t1)"
    using get_chip_id_script [OF dev, of count chip _ ] inc chip by simp
  have s2: "conn_read 0x1FFFF7E8 12 ?t1 = (Inr uid, ?t2)"
    using conn_read_script [of ?t1 uid "0x79 # 0x79 # 0x79 # b0 # b1 # rest" 12 "0x1FFFF7E8"]
      dev uid by simp
  have s3: "conn_read 0x1FFFF7E0 2 ?t2 = (Inr [b0, b1], ?t3)"
    using conn_read_script [of ?t2 "[b0, b1]" rest 2 "0x1FFFF7E0"] dev by simp
  have frames: "?t3 = ?t\<lparr>written := written ?t @
          [[0x02, 0xFD],
           [0x11, 0xEE], [0x1F, 0xFF, 0xF7, 0xE8, 0xFF], [0x0B, 0xF4],
           [0x11, 0xEE], [0x1F, 0xFF, 0xF7, 0xE0, 0xF7], [0x01, 0xFE]],
        incoming := rest\<rparr>"
    by (simp add: frame_of_def frame_checksum_def xor_all_def be32_def)
  have main: "get_info c =
    (Inr \<lparr>version = client_version c, chip_id = int_from_bytes_big chip, device_id = uid,
          flash_size = (uint b0 + 256 * uint b1) * 1024\<rparr>,
     c\<lparr>conn := ?t3\<rparr>)"
    unfolding get_info_def using caps
    by (simp add: and_then_def lift_result_def on_conn_def s1 s2 s3 unpack_le_u16_def)
  show ?thesis
    unfolding main frames [symmetric] by simp
qed

theorem get_info_flash_size_witness:
  "get_info (stub_client {GET_CHIP_ID, READ}
       (stub_transport
          [0x79, 0x01, 0x04, 0x10, 0x79,
           0x79, 0x79, 0x79, 1, 2, 3, 4, 5, 6, 7, 8, 9, 10, 11, 12,
           0x79, 0x79, 0x79, 0x00, 0x04] silent)) =
     (Inr \<lparr>version = 0x22, chip_id = 0x410, device_id = [1, 2, 3, 4, 5, 6, 7, 8, 9, 10, 11, 12],
           flash_size = 1048576\<rparr>,
      stub_client {GET_CHIP_ID, READ}
        \<lparr>written =
           [[0x02, 0xFD],
            [0x11, 0xEE], [0x1F, 0xFF, 0xF7, 0xE8, 0xFF], [0x0B, 0xF4],
            [0x11, 0xEE], [0x1F, 0xFF, 0xF7, 0xE0, 0xF7], [0x01, 0xFE]],
         incoming = [], device = silent\<rparr>)"
  using get_info_flash_size [of "stub_client {GET_CHIP_ID, READ}
       (stub_transport
          [0x79, 0x01, 0x04, 0x10, 0x79,
           0x79, 0x79, 0x79, 1, 2, 3, 4, 5, 6, 7, 8, 9, 10, 11, 12,
           0x79, 0x79, 0x79, 0x00, 0x04] silent)"
      "0x01" "[0x04, 0x10]" "[1, 2, 3, 4, 5, 6, 7, 8, 9, 10, 11, 12]" "0x00" "0x04" "[]"]
  by (simp add: stub_client_def stub_transport_def int_from_bytes_big_def)

section \<open>The progress callback\<close>

lemma segment_calls_Nil: "remaining \<le> 0 \<Longrightarrow> segment_calls total_size done_size remaining = []"
proof -
  assume "remaining \<le> 0"
  then have "(remaining + 255) div 256 \<le> 255 div (256 :: int)"
    by (intro zdiv_mono1) simp_all
  then show ?thesis
    by (simp add: segment_calls_def)
qed

lemma segment_calls_Cons:
  assumes "0 < remaining"
  shows "segment_calls total_size done_size remaining =
    (done_size + min remaining 256, total_size) #
      segment_calls total_size (done_size + min remaining 256) (remaining - min remaining 256)"
proof -
  have "remaining + 255 = (remaining - 1) + 1 * 256"
    by simp
  then have d: "(remaining + 255) div 256 = (remaining - 1) div 256 + 1"
    by (simp only: div_add_self2 div_mult_self1 div_mult_self2)
  have "0 \<le> (remaining - 1) div 256"
    using assms by (simp add: pos_imp_zdiv_nonneg_iff)
  with d have n: "nat ((remaining + 255) div 256) = Suc (nat ((remaining - 1) div 256))"
    by simp
  have idx: "[0 ..< nat ((remaining + 255) div 256)] =
      0 # map Suc [0 ..< nat ((remaining - 1) div 256)]"
    unfolding n by (simp only: map_Suc_upt upt_conv_Cons zero_less_Suc)
  show ?thesis
  proof (cases "remaining \<le> 256")
    case True
    then have "(remaining - 1) div 256 = 0"
      using assms by simp
    then show ?thesis
      using True assms by (simp add: segment_calls_def idx segment_calls_Nil min_def)
  next
    case False
    then have "(remaining - 256 + 255) div 256 = (remaining - 1) div 256"
      by simp
    then show ?thesis
      using False by (simp add: segment_calls_def idx comp_def algebra_simps min_def)
  qed
qed

lemma call_progress_cb_returns:
  assumes "returns_on progress_cb (cb_calls c) ((current, total_size) # calls)"
  shows "call_progress_cb progress_cb current total_size c =
      (Inr (), c\<lparr>cb_calls := cb_calls c @ calls_received progress_cb [(current, total_size)]\<rparr>) \<and>
    returns_on progress_cb
      (cb_calls c @ calls_received progress_cb [(current, total_size)]) calls"
  using assms
  by (cases progress_cb) (simp_all add: returns_on_def call_progress_cb_def calls_received_def)

lemma calls_received_Cons:
  "calls_received progress_cb (x # calls) =
     calls_received progress_cb [x] @ calls_received progress_cb calls"
  by (cases progress_cb) (simp_all add: calls_received_def)

section \<open>Chunked write\<close>

lemma write_segments_Nil: "write_segments a [] = []"
  by (simp add: write_segments_def)

lemma write_segments_Cons:
  assumes "data \<noteq> []"
  shows "write_segments a data = (a, take 256 data) # write_segments (a + 256) (drop 256 data)"
proof -
  from assms have "0 < length data" by simp
  have n: "(length data + 255) div 256 = Suc ((length data - 256 + 255) div 256)"
  proof (cases "length data \<le> 256")
    case True
    with \<open>0 < length data\<close> have "(length data + 255) div 256 = 1"
      by (intro div_nat_eqI) (simp_all add: Suc_le_eq)
    with True show ?thesis by simp
  next
    case False
    then have "length data + 255 = (length data - 256 + 255) + 256"
      by simp
    then have "(length data + 255) div 256 = (length data - 256 + 255) div 256 + 1"
      by (metis div_add_self2 zero_neq_numeral)
    then show ?thesis by simp
  qed
  have "[0 ..< (length data + 255) div 256] =
      0 # map Suc [0 ..< (length data - 256 + 255) div 256]"
    unfolding n by (simp only: map_Suc_upt upt_conv_Cons zero_less_Suc)
  then show ?thesis
    by (simp add: write_segments_def comp_def algebra_simps drop_drop)
qed

lemma conn_write_acked:
  assumes dev: "device t = ack_all"
    and inc: "incoming t = []"
    and seg: "seg \<noteq> []" "length seg \<le> 256"
    and a: "0 \<le> a" "a \<le> 0xFFFFFFFF"
  shows "conn_write a seg t = (Inr (), t\<lparr>written := written t @ wire_write a seg\<rparr>)"
proof -
  let ?m = "word_of_int (int (length seg) - 1) :: byte"
  let ?t1 = "t\<lparr>written := written t @ [frame_of [0x31]], incoming := []\<rparr>"
  let ?t2 = "t\<lparr>written := written t @ [frame_of [0x31], frame_of (be32 a)], incoming := []\<rparr>"
  let ?t3 = "t\<lparr>written := written t @ [frame_of [0x31], frame_of (be32 a), frame_of (?m # seg)],
      incoming := []\<rparr>"
  have s1: "send [0x31] t = (Inr (), ?t1)"
    using send_bytes_acked [of "[0x31]" t "[]"] dev inc
    by (simp add: ack_all_def)
  have s2: "send (map uint (be32 a)) ?t1 = (Inr (), ?t2)"
    using send_bytes_acked [of "be32 a" ?t1 "[]"] dev
    by (simp add: ack_all_def be32_def)
  have "0 < length seg"
    using seg by simp
  then have m: "uint ?m = int (length seg) - 1"
    using seg by (intro uint_byte_of_int) linarith+
  have s3: "send ((int (length seg) - 1) # map uint seg) ?t2 = (Inr (), ?t3)"
    using send_bytes_acked [of "?m # seg" ?t2 "[]"] dev
    by (simp only: list.map m) (simp add: ack_all_def)
  have sz: "\<not> (int (length seg) > 0x100 \<or> int (length seg) < 1)"
    using seg by (cases seg) simp_all
  have "conn_write a seg t = (Inr (), ?t3)"
    unfolding conn_write_def Let_def
    by (simp only: sz if_False and_then_def lift_result_def pack_be32 [OF a] s1 s2 s3
        prod.case sum.case cmd_value.simps)
  moreover have "?t3 = t\<lparr>written := written t @ wire_write a seg\<rparr>"
    using inc by (simp add: wire_write_def)
  ultimately show ?thesis by simp
qed

lemma take_min_256: "take (nat (min (int (length data)) 0x100)) data = take 256 data"
  by (cases "length data \<le> 256") (simp_all add: min_def)

lemma drop_min_256: "drop (nat (min (int (length data)) 0x100)) data = drop 256 data"
  by (cases "length data \<le> 256") (simp_all add: min_def)

lemma segment_index_bound: "k < (n + 255) div 256 \<Longrightarrow> 256 * k < (n :: nat)"
proof -
  assume "k < (n + 255) div 256"
  then have "Suc k \<le> (n + 255) div 256"
    by simp
  then have "Suc k * 256 \<le> n + 255"
    by (simp only: less_eq_div_iff_mult_less_eq zero_less_numeral)
  then show ?thesis
    by simp
qed

lemma write_segments_length: "length (write_segments a data) = (length data + 255) div 256"
  by (simp add: write_segments_def)

lemma write_segments_sizes:
  "(a', seg) \<in> set (write_segments a data) \<Longrightarrow> 1 \<le> length seg \<and> length seg \<le> 256"
  by (auto simp add: write_segments_def dest: segment_index_bound)

lemma write_segments_concat: "concat (map snd (write_segments a data)) = data"
proof (induction "length data" arbitrary: data a rule: less_induct)
  case less
  show ?case
  proof (cases "data = []")
    case True
    then show ?thesis by (simp add: write_segments_Nil)
  next
    case False
    then have "length (drop 256 data) < length data" by simp
    from less.hyps [OF this, of "a + 256"] show ?thesis
      by (simp add: write_segments_Cons [OF False])
  qed
qed

lemma write_segments_300:
  assumes "length data = 300"
  shows "write_segments 0x08000000 data =
    [(0x08000000, take 256 data), (0x08000100, drop 256 data)]"
proof -
  have "[0 ..< (300 + 255) div 256] = [0, Suc 0]"
    by (simp add: upt_rec)
  then show ?thesis
    using assms by (simp add: write_segments_def)
qed

lemma write_segments_prefix:
  "k \<le> (length data + 255) div 256 \<Longrightarrow>
   concat (map snd (take k (write_segments a data))) = take (256 * k) data"
proof (induction k)
  case 0
  show ?case by simp
next
  case (Suc k)
  then have k: "k < (length data + 255) div 256"
    by simp
  then have "take (Suc k) (write_segments a data) =
      take k (write_segments a data) @ [(a + 256 * int k, take 256 (drop (256 * k) data))]"
    by (simp add: take_Suc_conv_app_nth write_segments_def)
  moreover have "concat (map snd (take k (write_segments a data))) = take (256 * k) data"
    using Suc by simp
  ultimately show ?case
    by (simp add: take_add [symmetric] add.commute)
qed

lemma write_segments_address:
  assumes "k < length (write_segments a data)"
  shows "fst (write_segments a data ! k) =
    a + int (length (concat (map snd (take k (write_segments a data)))))"
proof -
  from assms have k: "k < (length data + 255) div 256"
    by (simp add: write_segments_def)
  then have "256 * k < length data"
    by (rule segment_index_bound)
  then have "length (take (256 * k) data) = 256 * k"
    by simp
  moreover have "fst (write_segments a data ! k) = a + 256 * int k"
    using k by (simp add: write_segments_def)
  ultimately show ?thesis
    using k by (simp add: write_segments_prefix)
qed

lemma write_loop_acked:
  assumes dev: "device (conn c) = ack_all"
    and inc: "incoming (conn c) = []"
    and addr: "\<forall>(a', seg) \<in> set (write_segments a data). 0 \<le> a' \<and> a' \<le> 0xFFFFFFFF"
    and cb: "returns_on progress_cb (cb_calls c)
        (segment_calls total_size written_size (int (length data)))"
  shows "fst (write_loop progress_cb total_size written_size a data c) = Inr () \<and>
    conn (snd (write_loop progress_cb total_size written_size a data c)) =
      (conn c)\<lparr>written := written (conn c) @
        concat (map (\<lambda>(a, seg). wire_write a seg) (write_segments a data))\<rparr> \<and>
    cb_calls (snd (write_loop progress_cb total_size written_size a data c)) =
      cb_calls c @
        calls_received progress_cb (segment_calls total_size written_size (int (length data)))"
  using assms
proof (induction "length data" arbitrary: data a c written_size rule: less_induct)
  case less
  show ?case
  proof (cases "data = []")
    case True
    then show ?thesis
      by (cases progress_cb)
        (simp_all add: write_segments_Nil write_loop.simps [of _ _ _ _ "[]"]
          segment_calls_Nil calls_received_def)
  next
    case False
    let ?seg = "take 256 data"
    let ?sz = "min (int (length data)) 256"
    let ?t' = "(conn c)\<lparr>written := written (conn c) @ wire_write a ?seg\<rparr>"
    let ?c' = "c\<lparr>conn := ?t'\<rparr>"
    let ?call = "(written_size + ?sz, total_size)"
    let ?c'' = "?c'\<lparr>cb_calls := cb_calls ?c' @ calls_received progress_cb [?call]\<rparr>"
    let ?later = "segment_calls total_size (written_size + ?sz) (int (length data) - ?sz)"
    have segs: "write_segments a data = (a, ?seg) # write_segments (a + 256) (drop 256 data)"
      using False by (rule write_segments_Cons)
    have calls: "segment_calls total_size written_size (int (length data)) = ?call # ?later"
      using False by (intro segment_calls_Cons) simp
    have "0 \<le> a" "a \<le> 0xFFFFFFFF"
      using less.prems(3) unfolding segs by simp_all
    then have w: "conn_write a ?seg (conn c) = (Inr (), ?t')"
      using False less.prems by (intro conn_write_acked) simp_all
    have "returns_on progress_cb (cb_calls ?c') (?call # ?later)"
      using less.prems(4) unfolding calls by simp
    from call_progress_cb_returns [OF this]
    have p: "call_progress_cb progress_cb (written_size + ?sz) total_size ?c' = (Inr (), ?c'')"
      and cb': "returns_on progress_cb (cb_calls ?c'') ?later"
      by simp_all
    have oc: "on_conn (conn_write a (take (nat (min (int (length data)) 0x100)) data)) c =
        (Inr (), ?c')"
      by (simp only: take_min_256 on_conn_def w prod.case)
    have step: "write_loop progress_cb total_size written_size a data c =
        write_loop progress_cb total_size (written_size + ?sz) (a + ?sz) (drop 256 data) ?c''"
      by (subst write_loop.simps)
        (simp only: False not_False_eq_True if_True Let_def oc p prod.case sum.case drop_min_256)
    have smaller: "length (drop 256 data) < length data"
      using False by simp
    have dev': "device (conn ?c'') = ack_all" and inc': "incoming (conn ?c'') = []"
      using less.prems by simp_all
    have segs': "write_segments (a + ?sz) (drop 256 data) =
        write_segments (a + 256) (drop 256 data)"
      by (cases "length data \<le> 256") (simp_all add: min_def write_segments_Nil)
    have addr': "\<forall>(a', seg) \<in> set (write_segments (a + ?sz) (drop 256 data)).
        0 \<le> a' \<and> a' \<le> 0xFFFFFFFF"
      using less.prems(3) unfolding segs segs' by simp
    have len': "int (length (drop 256 data)) = int (length data) - ?sz"
      by (simp add: min_def)
    have cb'': "returns_on progress_cb (cb_calls ?c'')
        (segment_calls total_size (written_size + ?sz) (int (length (drop 256 data))))"
      using cb' by (simp only: len')
    note IH = less.hyps [OF smaller dev' inc' addr' cb'']
    have conn'': "conn ?c'' = ?t'"
      by simp
    have log'': "cb_calls ?c'' = cb_calls c @ calls_received progress_cb [?call]"
      by simp
    show ?thesis
      unfolding step
      using IH calls_received_Cons [of progress_cb ?call ?later]
      by (simp only: conn'' log'' segs segs' calls len' list.map prod.case concat.simps
          append_assoc simp_thms)
        simp
  qed
qed

lemma write_loop_raises:
  assumes "data \<noteq> []"
    and "conn_write a (take 256 data) (conn c) = (Inl e, t')"
  shows "write_loop progress_cb total_size written_size a data c = (Inl e, c\<lparr>conn := t'\<rparr>)"
proof -
  have oc: "on_conn (conn_write a (take (nat (min (int (length data)) 0x100)) data)) c =
      (Inl e, c\<lparr>conn := t'\<rparr>)"
    by (simp only: take_min_256 on_conn_def assms(2) prod.case)
  show ?thesis
    by (subst write_loop.simps)
      (simp only: assms(1) not_False_eq_True if_True Let_def oc prod.case sum.case)
qed

lemma write_loop_next:
  assumes "data \<noteq> []"
    and "conn_write a (take 256 data) (conn c) = (Inr (), t')"
  shows "write_loop None total_size written_size a data c =
    write_loop None total_size (written_size + min (int (length data)) 256)
      (a + min (int (length data)) 256) (drop 256 data) (c\<lparr>conn := t'\<rparr>)"
proof -
  have oc: "on_conn (conn_write a (take (nat (min (int (length data)) 0x100)) data)) c =
      (Inr (), c\<lparr>conn := t'\<rparr>)"
    by (simp only: take_min_256 on_conn_def assms(2) prod.case)
  have p: "call_progress_cb None (written_size + min (int (length data)) 0x100) total_size
      (c\<lparr>conn := t'\<rparr>) = (Inr (), c\<lparr>conn := t'\<rparr>)"
    by (simp add: call_progress_cb_def)
  show ?thesis
    by (subst write_loop.simps)
      (simp only: assms(1) not_False_eq_True if_True Let_def oc p prod.case sum.case
        drop_min_256)
qed

text \<open>
  C4, as amended. \<open>Client.write\<close> of \<open>N\<close> bytes at address \<open>A\<close>, on a device that
  advertises WRITE and acknowledges every frame, when the address of every segment is one
  the four address bytes of the wire format can hold (0 to \<open>0xFFFFFFFF\<close>) and the
  progress callback, if one is supplied, returns from each of its calls: the call
  returns, and what it writes is exactly the wire write commands of
  \<open>write_segments A data\<close>, in order. These are \<open>ceil(N/256)\<close> segments, each of 1 to
  256 bytes, taken from the data in order (together they are the data), and each
  addressed at \<open>A\<close> plus the number of bytes in the segments before it. A supplied
  callback receives \<open>(0, N)\<close> and then the bytes done after each segment. For 300 bytes
  at \<open>0x08000000\<close> the segments are two: 256 bytes at \<open>0x08000000\<close>, then 44 bytes at
  \<open>0x08000100\<close>.
\<close>

theorem write_segmentation:
  assumes caps: "WRITE \<in> cmd_types c"
    and dev: "device (conn c) = ack_all"
    and inc: "incoming (conn c) = []"
    and addr: "\<forall>(a', seg) \<in> set (write_segments a data). 0 \<le> a' \<and> a' \<le> 0xFFFFFFFF"
    and cb: "returns_on progress_cb (cb_calls c) (progress_calls (int (length data)))"
  shows "fst (client_write a data progress_cb c) = Inr () \<and>
    written (conn (snd (client_write a data progress_cb c))) =
      written (conn c) @ concat (map (\<lambda>(a, seg). wire_write a seg) (write_segments a data)) \<and>
    cb_calls (snd (client_write a data progress_cb c)) =
      cb_calls c @ calls_received progress_cb (progress_calls (int (length data))) \<and>
    length (write_segments a data) = (length data + 255) div 256 \<and>
    (\<forall>(a', seg) \<in> set (write_segments a data). 1 \<le> length seg \<and> length seg \<le> 256) \<and>
    concat (map snd (write_segments a data)) = data \<and>
    (\<forall>k < length (write_segments a data).
       fst (write_segments a data ! k) =
         a + int (length (concat (map snd (take k (write_segments a data)))))) \<and>
    (length data = 300 \<longrightarrow>
       write_segments 0x08000000 data =
         [(0x08000000, take 256 data), (0x08000100, drop 256 data)] \<and>
       length (take 256 data) = 256 \<and> length (drop 256 data) = 44)"
proof -
  let ?n = "int (length data)"
  let ?c = "c\<lparr>cb_calls := cb_calls c @ calls_received progress_cb [(0, ?n)]\<rparr>"
  from cb have "returns_on progress_cb (cb_calls c) ((0, ?n) # segment_calls ?n 0 ?n)"
    by (simp only: progress_calls_def)
  from call_progress_cb_returns [OF this]
  have first: "call_progress_cb progress_cb 0 ?n c = (Inr (), ?c)"
    and cb': "returns_on progress_cb (cb_calls ?c) (segment_calls ?n 0 ?n)"
    by simp_all
  have dev': "device (conn ?c) = ack_all" and inc': "incoming (conn ?c) = []"
    using dev inc by simp_all
  note loop = write_loop_acked [OF dev' inc' addr cb']
  have "client_write a data progress_cb c = write_loop progress_cb ?n 0 a data ?c"
    using caps by (simp add: client_write_def and_then_def first)
  with loop have run: "fst (client_write a data progress_cb c) = Inr () \<and>
    written (conn (snd (client_write a data progress_cb c))) =
      written (conn c) @ concat (map (\<lambda>(a, seg). wire_write a seg) (write_segments a data)) \<and>
    cb_calls (snd (client_write a data progress_cb c)) =
      cb_calls c @ calls_received progress_cb (progress_calls ?n)"
    using calls_received_Cons [of progress_cb "(0, ?n)" "segment_calls ?n 0 ?n"]
    by (simp add: progress_calls_def)
  have sizes: "\<forall>(a', seg) \<in> set (write_segments a data). 1 \<le> length seg \<and> length seg \<le> 256"
    using write_segments_sizes by blast
  have contiguous: "\<forall>k < length (write_segments a data).
       fst (write_segments a data ! k) =
         a + int (length (concat (map snd (take k (write_segments a data)))))"
    using write_segments_address by blast
  have scenario: "length data = 300 \<longrightarrow>
       write_segments 0x08000000 data =
         [(0x08000000, take 256 data), (0x08000100, drop 256 data)] \<and>
       length (take 256 data) = 256 \<and> length (drop 256 data) = 44"
    using write_segments_300 by simp
  from run sizes contiguous scenario show ?thesis
    using write_segments_length [of a data] write_segments_concat [of a data] by blast
qed

theorem write_segmentation_witness:
  "fst (client_write 0x08000000 (replicate 300 0xAB) (Some print_progress)
         (stub_client {WRITE} (stub_transport [] ack_all))) = Inr () \<and>
   written (conn (snd (client_write 0x08000000 (replicate 300 0xAB) (Some print_progress)
         (stub_client {WRITE} (stub_transport [] ack_all))))) =
     [[0x31, 0xCE], [0x08, 0x00, 0x00, 0x00, 0x08], frame_of (0xFF # replicate 256 0xAB),
      [0x31, 0xCE], [0x08, 0x00, 0x01, 0x00, 0x09], frame_of (0x2B # replicate 44 0xAB)] \<and>
   cb_calls (snd (client_write 0x08000000 (replicate 300 0xAB) (Some print_progress)
         (stub_client {WRITE} (stub_transport [] ack_all)))) =
     [(0, 300), (256, 300), (300, 300)] \<and>
   written (conn (snd (client_write 0xFFFFFFFF [0x01, 0x02] None
         (stub_client {WRITE} (stub_transport [] ack_all))))) =
     [[0x31, 0xCE], [0xFF, 0xFF, 0xFF, 0xFF, 0x00], [0x01, 0x01, 0x02, 0x02]]"
proof -
  let ?c = "stub_client {WRITE} (stub_transport [] ack_all)"
  let ?data = "replicate 300 (0xAB :: byte)"
  have idx: "[0 ..< 2] = [0, Suc 0]"
    by (simp add: upt_rec)
  have f1: "frame_of [0x31] = [0x31, 0xCE]"
    and f2: "frame_of [0x08, 0x00, 0x00, 0x00] = [0x08, 0x00, 0x00, 0x00, 0x08]"
    and f3: "frame_of [0x08, 0x00, 0x01, 0x00] = [0x08, 0x00, 0x01, 0x00, 0x09]"
    and f4: "frame_of [0xFF, 0xFF, 0xFF, 0xFF] = [0xFF, 0xFF, 0xFF, 0xFF, 0x00]"
    and f5: "frame_of [0x01, 0x01, 0x02] = [0x01, 0x01, 0x02, 0x02]"
    by (simp_all add: frame_of_def frame_checksum_def xor_all_def)
  have segs: "write_segments 0x08000000 ?data =
      [(0x08000000, replicate 256 0xAB), (0x08000100, replicate 44 0xAB)]"
    by (simp add: write_segments_def idx)
  have segs2: "write_segments 0xFFFFFFFF [0x01, 0x02 :: byte] = [(0xFFFFFFFF, [0x01, 0x02])]"
    by (simp add: write_segments_def)
  have calls: "progress_calls 300 = [(0, 300), (256, 300), (300, 300)]"
    by (simp add: progress_calls_def segment_calls_def idx)
  have b1: "be32 0x08000000 = [0x08, 0x00, 0x00, 0x00]"
    and b2: "be32 0x08000100 = [0x08, 0x00, 0x01, 0x00]"
    and b3: "be32 0xFFFFFFFF = [0xFF, 0xFF, 0xFF, 0xFF]"
    by (simp_all add: be32_def)
  have h: "WRITE \<in> cmd_types ?c" "device (conn ?c) = ack_all" "incoming (conn ?c) = []"
    by (simp_all add: stub_client_def stub_transport_def)
  have addr: "\<forall>(a', seg) \<in> set (write_segments 0x08000000 ?data). 0 \<le> a' \<and> a' \<le> 0xFFFFFFFF"
    unfolding segs by simp
  have cb: "returns_on (Some print_progress) (cb_calls ?c) (progress_calls (int (length ?data)))"
    by (simp add: calls returns_on_def print_progress_def)
  note w = write_segmentation [OF h addr cb]
  have addr2: "\<forall>(a', seg) \<in> set (write_segments 0xFFFFFFFF [0x01, 0x02 :: byte]).
      0 \<le> a' \<and> a' \<le> 0xFFFFFFFF"
    unfolding segs2 by simp
  have cb2: "returns_on None (cb_calls ?c) (progress_calls (int (length [0x01, 0x02 :: byte])))"
    by (simp add: returns_on_def)
  note w2 = write_segmentation [OF h addr2 cb2]
  from w have r1: "fst (client_write 0x08000000 ?data (Some print_progress) ?c) = Inr ()"
    by (rule conjunct1)
  from w have "written (conn (snd (client_write 0x08000000 ?data (Some print_progress) ?c))) =
      written (conn ?c) @
        concat (map (\<lambda>(a, seg). wire_write a seg) (write_segments 0x08000000 ?data))"
    by (rule conjunct2 [THEN conjunct1])
  then have r2: "written (conn (snd (client_write 0x08000000 ?data (Some print_progress) ?c))) =
     [[0x31, 0xCE], [0x08, 0x00, 0x00, 0x00, 0x08], frame_of (0xFF # replicate 256 0xAB),
      [0x31, 0xCE], [0x08, 0x00, 0x01, 0x00, 0x09], frame_of (0x2B # replicate 44 0xAB)]"
    unfolding segs
    by (simp add: stub_client_def stub_transport_def wire_write_def b1 b2 f1 f2 f3)
  from w have "cb_calls (snd (client_write 0x08000000 ?data (Some print_progress) ?c)) =
      cb_calls ?c @ calls_received (Some print_progress) (progress_calls (int (length ?data)))"
    by (rule conjunct2 [THEN conjunct2, THEN conjunct1])
  then have r3: "cb_calls (snd (client_write 0x08000000 ?data (Some print_progress) ?c)) =
      [(0, 300), (256, 300), (300, 300)]"
    by (simp add: calls calls_received_def stub_client_def)
  from w2 have "written (conn (snd (client_write 0xFFFFFFFF [0x01, 0x02] None ?c))) =
      written (conn ?c) @
        concat (map (\<lambda>(a, seg). wire_write a seg) (write_segments 0xFFFFFFFF [0x01, 0x02]))"
    by (rule conjunct2 [THEN conjunct1])
  then have r4: "written (conn (snd (client_write 0xFFFFFFFF [0x01, 0x02] None ?c))) =
     [[0x31, 0xCE], [0xFF, 0xFF, 0xFF, 0xFF, 0x00], [0x01, 0x01, 0x02, 0x02]]"
    unfolding segs2
    by (simp add: stub_client_def stub_transport_def wire_write_def b3 f1 f4 f5)
  from r1 r2 r3 r4 show ?thesis
    by (simp only: simp_thms)
qed

text \<open>
  C4, as stated for every address, fails: 257 bytes at \<open>0xFFFFFF00\<close> are
  \<open>ceil(257/256) = 2\<close> segments, and the second would be addressed at \<open>0x100000000\<close>.
  \<open>Connection.write\<close> sends the opcode before it packs the address, so the call writes
  one wire write command and a lone opcode frame, four frames in all, and raises the
  error of \<open>struct.pack\<close>.
\<close>

theorem write_beyond_address_range_counterexample:
  "(257 + 255) div 256 = (2 :: nat) \<and>
   client_write 0xFFFFFF00 (replicate 257 0xAB) None
       (stub_client {WRITE} (stub_transport [] ack_all)) =
     (Inl StructError,
      stub_client {WRITE}
        \<lparr>written = wire_write 0xFFFFFF00 (replicate 256 0xAB) @ [[0x31, 0xCE]],
         incoming = [], device = ack_all\<rparr>) \<and>
   length (written (conn (snd (client_write 0xFFFFFF00 (replicate 257 0xAB) None
       (stub_client {WRITE} (stub_transport [] ack_all)))))) = 4"
proof -
  let ?t0 = "stub_transport [] ack_all"
  let ?c0 = "stub_client {WRITE} ?t0"
  let ?d = "replicate 257 (0xAB :: byte)"
  let ?t1 = "?t0\<lparr>written := written ?t0 @ wire_write 0xFFFFFF00 (replicate 256 0xAB)\<rparr>"
  let ?t2 = "?t1\<lparr>written := written ?t1 @ [frame_of [0x31]], incoming := []\<rparr>"
  let ?c1 = "?c0\<lparr>conn := ?t1\<rparr>"
  have w1: "conn_write 0xFFFFFF00 (replicate 256 0xAB) ?t0 = (Inr (), ?t1)"
    by (rule conn_write_acked) (simp_all add: stub_transport_def)
  have s: "send [0x31] ?t1 = (Inr (), ?t2)"
    using send_bytes_acked [of "[0x31]" ?t1 "[]"]
    by (simp add: stub_transport_def ack_all_def)
  have w2: "conn_write 0x100000000 [0xAB] ?t1 = (Inl StructError, ?t2)"
    by (simp add: conn_write_def and_then_def lift_result_def s pack_be_u32_def)
  have "conn_write 0xFFFFFF00 (take 256 ?d) (conn ?c0) = (Inr (), ?t1)"
    using w1 by (simp add: stub_client_def)
  from write_loop_next [OF _ this, of 257 0]
  have l1: "write_loop None 257 0 0xFFFFFF00 ?d ?c0 =
      write_loop None 257 256 0x100000000 [0xAB] ?c1"
    by simp
  have "conn_write 0x100000000 (take 256 [0xAB]) (conn ?c1) = (Inl StructError, ?t2)"
    using w2 by simp
  from write_loop_raises [OF _ this, of None 257 256]
  have l2: "write_loop None 257 256 0x100000000 [0xAB] ?c1 =
      (Inl StructError, ?c1\<lparr>conn := ?t2\<rparr>)"
    by simp
  have first: "call_progress_cb None 0 257 ?c0 = (Inr (), ?c0)"
    by (simp add: call_progress_cb_def)
  have "WRITE \<in> cmd_types ?c0"
    by (simp add: stub_client_def)
  then have "client_write 0xFFFFFF00 ?d None ?c0 = write_loop None 257 0 0xFFFFFF00 ?d ?c0"
    by (simp add: client_write_def and_then_def first)
  then have run: "client_write 0xFFFFFF00 ?d None ?c0 =
      (Inl StructError, ?c1\<lparr>conn := ?t2\<rparr>)"
    by (simp only: l1 l2)
  have "frame_of [0x31] = [0x31, 0xCE]"
    by (simp add: frame_of_def frame_checksum_def)
  then show ?thesis
    unfolding run by (simp add: stub_client_def stub_transport_def wire_write_def)
qed

section \<open>Chunked read\<close>

lemma memory_run_snoc:
  "memory_run mem (log @ [fr]) = memory_step mem (fst (memory_run mem log)) fr"
  by (simp add: memory_run_def split_beta)

lemma uint_byte_of_int_mod: "uint (word_of_int x :: byte) = x mod 256"
  by (simp add: unsigned_of_int take_bit_eq_mod)

lemma be32_decode:
  assumes "0 \<le> a" "a \<le> 0xFFFFFFFF"
  shows "((uint (word_of_int (a div 2 ^ 24) :: byte) * 256
            + uint (word_of_int (a div 2 ^ 16) :: byte)) * 256
            + uint (word_of_int (a div 2 ^ 8) :: byte)) * 256
            + uint (word_of_int a :: byte) = a"
proof -
  define d1 d2 d3 where "d1 = a div 256" and "d2 = d1 div 256" and "d3 = d2 div 256"
  have e1: "a div 2 ^ 8 = d1"
    by (simp add: d1_def)
  have e2: "a div 2 ^ 16 = d2"
    unfolding d2_def d1_def by (simp add: zdiv_zmult2_eq [symmetric])
  have e3: "a div 2 ^ 24 = d3"
    unfolding d3_def d2_def d1_def by (simp add: zdiv_zmult2_eq [symmetric])
  have "0 \<le> d3" "d3 < 256"
    using assms unfolding e3 [symmetric] by simp_all
  then have m3: "d3 mod 256 = d3"
    by simp
  define r0 r1 r2 where "r0 = a mod 256" and "r1 = d1 mod 256" and "r2 = d2 mod 256"
  have s0: "a = 256 * d1 + r0"
    unfolding d1_def r0_def by simp
  have s1: "d1 = 256 * d2 + r1"
    unfolding d2_def r1_def by simp
  have s2: "d2 = 256 * d3 + r2"
    unfolding d3_def r2_def by simp
  have "((d3 * 256 + r2) * 256 + r1) * 256 + r0 = a"
    using s0 s1 s2 by simp
  then have "((d3 mod 256 * 256 + d2 mod 256) * 256 + d1 mod 256) * 256 + a mod 256 = a"
    unfolding m3 r0_def r1_def r2_def .
  then show ?thesis
    by (simp only: uint_byte_of_int_mod e1 e2 e3)
qed

lemma memory_step_address:
  assumes "0 \<le> a" "a \<le> 0xFFFFFFFF"
  shows "memory_step mem AwaitAddress (frame_of (be32 a)) = (AwaitLength a, [0x79])"
proof -
  have "frame_of (be32 a) = be32 a @ [xor_all (be32 a)]"
    by (rule frame_multi) (simp add: be32_def)
  then show ?thesis
    using be32_decode [OF assms]
    by (simp add: be32_def xor_all_def xor.assoc)
qed

lemma conn_read_memory:
  assumes dev: "device t = memory_device mem"
    and inc: "incoming t = []"
    and idle: "fst (memory_run mem (written t)) = Idle"
    and a: "0 \<le> a" "a \<le> 0xFFFFFFFF"
  shows "conn_read a (uint (m :: byte) + 1) t =
    (Inr (map mem [a .. a + uint m]),
     t\<lparr>written := written t @ [frame_of [0x11], frame_of (be32 a), frame_of [m]],
       incoming := []\<rparr>) \<and>
    fst (memory_run mem (written t @ [frame_of [0x11], frame_of (be32 a), frame_of [m]])) = Idle"
proof -
  let ?w1 = "written t @ [frame_of [0x11]]"
  let ?w2 = "written t @ [frame_of [0x11], frame_of (be32 a)]"
  let ?w3 = "written t @ [frame_of [0x11], frame_of (be32 a), frame_of [m]]"
  let ?t1 = "t\<lparr>written := ?w1, incoming := []\<rparr>"
  let ?t2 = "t\<lparr>written := ?w2, incoming := []\<rparr>"
  let ?t3 = "t\<lparr>written := ?w3, incoming := map mem [a .. a + uint m]\<rparr>"
  have r1: "memory_run mem ?w1 = (AwaitAddress, [0x79])"
    using memory_run_snoc [of mem "written t" "frame_of [0x11]"] idle
    by (simp add: frame_single)
  have r2: "memory_run mem ?w2 = (AwaitLength a, [0x79])"
    using memory_run_snoc [of mem ?w1 "frame_of (be32 a)"] r1 memory_step_address [OF a]
    by simp
  have r3: "memory_run mem ?w3 = (Idle, 0x79 # map mem [a .. a + uint m])"
    using memory_run_snoc [of mem ?w2 "frame_of [m]"] r2
    by (simp add: frame_single)
  have s1: "send [0x11] t = (Inr (), ?t1)"
    using send_bytes_acked [of "[0x11]" t "[]"] dev inc r1
    by (simp add: memory_device_def)
  have s2: "send (map uint (be32 a)) ?t1 = (Inr (), ?t2)"
    using send_bytes_acked [of "be32 a" ?t1 "[]"] dev r2
    by (simp add: memory_device_def be32_def)
  have s3: "send [uint m] ?t2 = (Inr (), ?t3)"
    using send_bytes_acked [of "[m]" ?t2 "map mem [a .. a + uint m]"] dev r3
    by (simp add: memory_device_def)
  have "0 \<le> uint m"
    by simp
  then have s4: "serial_read (uint m + 1) ?t3 =
      (Inr (map mem [a .. a + uint m]), ?t3\<lparr>incoming := []\<rparr>)"
    by (simp add: serial_read_def)
  have le: "\<not> uint m + 1 > 0x100"
    using uint_byte_less [of m] by simp
  have "conn_read a (uint m + 1) t =
      (Inr (map mem [a .. a + uint m]), ?t3\<lparr>incoming := []\<rparr>)"
    unfolding conn_read_def
    by (simp only: le if_False and_then_def lift_result_def pack_be32 [OF a] s1 s2 s3 s4
        prod.case sum.case cmd_value.simps add_diff_cancel_right')
  then show ?thesis
    using r3 by simp
qed

lemma naive_read_split:
  assumes "0 \<le> n" "n \<le> sz"
  shows "naive_read mem a sz = naive_read mem a n @ naive_read mem (a + n) (sz - n)"
proof (cases "n = 0")
  case True
  then show ?thesis by (simp add: naive_read_def)
next
  case False
  with assms have "a \<le> a + n - 1" "a + n - 1 \<le> a + sz - 1"
    by simp_all
  then have "[a .. a + sz - 1] = [a .. a + n - 1] @ [a + n - 1 + 1 .. a + sz - 1]"
    by (rule upto_split2)
  then show ?thesis
    by (simp add: naive_read_def)
qed

lemma read_segments_Nil: "sz \<le> 0 \<Longrightarrow> read_segments a sz = []"
proof -
  assume "sz \<le> 0"
  then have "(sz + 255) div 256 \<le> 255 div (256 :: int)"
    by (intro zdiv_mono1) simp_all
  then show ?thesis
    by (simp add: read_segments_def)
qed

lemma read_segments_Cons:
  assumes "0 < sz"
  shows "read_segments a sz =
    (a, min sz 256) # read_segments (a + min sz 256) (sz - min sz 256)"
proof -
  have "sz + 255 = (sz - 1) + 1 * 256"
    by simp
  then have d: "(sz + 255) div 256 = (sz - 1) div 256 + 1"
    by (simp only: div_add_self2 div_mult_self1 div_mult_self2)
  have "0 \<le> (sz - 1) div 256"
    using assms by (simp add: pos_imp_zdiv_nonneg_iff)
  with d have n: "nat ((sz + 255) div 256) = Suc (nat ((sz - 1) div 256))"
    by simp
  have idx: "[0 ..< nat ((sz + 255) div 256)] = 0 # map Suc [0 ..< nat ((sz - 1) div 256)]"
    unfolding n by (simp only: map_Suc_upt upt_conv_Cons zero_less_Suc)
  show ?thesis
  proof (cases "sz \<le> 256")
    case True
    then have "(sz - 1) div 256 = 0"
      using assms by simp
    then show ?thesis
      using True assms by (simp add: read_segments_def idx read_segments_Nil min_def)
  next
    case False
    then have "(sz - 256 + 255) div 256 = (sz - 1) div 256"
      by simp
    then show ?thesis
      using False by (simp add: read_segments_def idx comp_def algebra_simps min_def)
  qed
qed

lemma read_segments_sizes:
  assumes "(a', n) \<in> set (read_segments a sz)"
  shows "1 \<le> n \<and> n \<le> 256"
proof -
  from assms obtain k where k: "k < nat ((sz + 255) div 256)"
    and n: "n = min 256 (sz - 256 * int k)"
    by (auto simp add: read_segments_def)
  have "int k + 1 \<le> (sz + 255) div 256"
    using k by simp
  then have "(int k + 1) * 256 \<le> (sz + 255) div 256 * 256"
    by (simp only: mult_le_cancel_right) simp
  also have "\<dots> = sz + 255 - (sz + 255) mod 256"
    by (simp only: minus_mod_eq_div_mult)
  also have "\<dots> \<le> sz + 255"
    by simp
  finally have "256 * int k < sz"
    by simp
  with n show ?thesis
    by simp
qed

lemma read_loop_memory:
  assumes dev: "device (conn c) = memory_device mem"
    and inc: "incoming (conn c) = []"
    and idle: "fst (memory_run mem (written (conn c))) = Idle"
    and addr: "\<forall>(a', n) \<in> set (read_segments a sz). 0 \<le> a' \<and> a' \<le> 0xFFFFFFFF"
    and cb: "returns_on progress_cb (cb_calls c) (segment_calls total_size read_size sz)"
  shows "\<exists>segments' c'.
    read_loop progress_cb total_size read_size a sz segments c = (Inr segments', c') \<and>
    concat segments' = concat segments @ naive_read mem a sz \<and>
    written (conn c') =
      written (conn c) @ concat (map (\<lambda>(a, n). wire_read a n) (read_segments a sz)) \<and>
    cb_calls c' =
      cb_calls c @ calls_received progress_cb (segment_calls total_size read_size sz)"
  using assms
proof (induction "nat sz" arbitrary: sz a c read_size segments rule: less_induct)
  case less
  show ?case
  proof (cases "sz > 0")
    case False
    then show ?thesis
      by (cases progress_cb)
        (simp_all add: naive_read_def read_loop.simps [of _ _ _ _ sz] read_segments_Nil
          segment_calls_Nil calls_received_def)
  next
    case True
    let ?n = "min sz 256"
    let ?m = "word_of_int (?n - 1) :: byte"
    let ?seg = "naive_read mem a ?n"
    let ?t' = "(conn c)\<lparr>written := written (conn c) @
        [frame_of [0x11], frame_of (be32 a), frame_of [?m]], incoming := []\<rparr>"
    let ?c' = "c\<lparr>conn := ?t'\<rparr>"
    let ?call = "(read_size + ?n, total_size)"
    let ?c'' = "?c'\<lparr>cb_calls := cb_calls ?c' @ calls_received progress_cb [?call]\<rparr>"
    let ?later = "segment_calls total_size (read_size + ?n) (sz - ?n)"
    have segs: "read_segments a sz = (a, ?n) # read_segments (a + ?n) (sz - ?n)"
      using True by (rule read_segments_Cons)
    have calls: "segment_calls total_size read_size sz = ?call # ?later"
      using True by (rule segment_calls_Cons)
    have n: "1 \<le> ?n" "?n \<le> 256"
      using True by simp_all
    then have m: "uint ?m = ?n - 1"
      by (intro uint_byte_of_int) linarith+
    have a: "0 \<le> a" "a \<le> 0xFFFFFFFF"
      using less.prems(4) unfolding segs by simp_all
    note cr = conn_read_memory [OF less.prems(1-3) a, of ?m, unfolded m]
    have r: "conn_read a ?n (conn c) = (Inr ?seg, ?t')"
      using cr by (simp add: naive_read_def add_diff_eq)
    have idle': "fst (memory_run mem (written ?t')) = Idle"
      using cr by simp
    have "returns_on progress_cb (cb_calls ?c') (?call # ?later)"
      using less.prems(5) unfolding calls by simp
    from call_progress_cb_returns [OF this]
    have p: "call_progress_cb progress_cb (read_size + ?n) total_size ?c' = (Inr (), ?c'')"
      and cb': "returns_on progress_cb (cb_calls ?c'') ?later"
      by simp_all
    have oc: "on_conn (conn_read a (min sz 0x100)) c = (Inr ?seg, ?c')"
      by (simp only: on_conn_def r prod.case)
    have step: "read_loop progress_cb total_size read_size a sz segments c =
        read_loop progress_cb total_size (read_size + ?n) (a + ?n) (sz - ?n)
          (segments @ [?seg]) ?c''"
      by (subst read_loop.simps)
        (simp only: True if_True Let_def oc p prod.case sum.case)
    have smaller: "nat (sz - ?n) < nat sz"
      using True by simp
    have dev': "device (conn ?c'') = memory_device mem" and inc': "incoming (conn ?c'') = []"
      using less.prems by simp_all
    have idle'': "fst (memory_run mem (written (conn ?c''))) = Idle"
      using idle' by simp
    have addr': "\<forall>(a', n) \<in> set (read_segments (a + ?n) (sz - ?n)).
        0 \<le> a' \<and> a' \<le> 0xFFFFFFFF"
      using less.prems(4) unfolding segs by simp
    from less.hyps [OF smaller dev' inc' idle'' addr' cb', of "segments @ [?seg]"]
    obtain segments' c3 where
      "read_loop progress_cb total_size (read_size + ?n) (a + ?n) (sz - ?n)
          (segments @ [?seg]) ?c'' = (Inr segments', c3)"
      "concat segments' = concat (segments @ [?seg]) @ naive_read mem (a + ?n) (sz - ?n)"
      "written (conn c3) = written (conn ?c'') @
         concat (map (\<lambda>(a, n). wire_read a n) (read_segments (a + ?n) (sz - ?n)))"
      "cb_calls c3 = cb_calls ?c'' @ calls_received progress_cb ?later"
      by blast
    moreover have "naive_read mem a sz = ?seg @ naive_read mem (a + ?n) (sz - ?n)"
      using True by (intro naive_read_split) simp_all
    moreover have "written (conn ?c'') = written (conn c) @ wire_read a ?n"
      by (simp add: wire_read_def)
    moreover have "cb_calls ?c'' @ calls_received progress_cb ?later =
        cb_calls c @ calls_received progress_cb (?call # ?later)"
      using calls_received_Cons [of progress_cb ?call ?later] by simp
    ultimately show ?thesis
      unfolding step
      by (simp only: segs calls concat_append concat.simps append_Nil2 append_assoc list.map
          prod.case)
        blast
  qed
qed

lemma read_loop_raises:
  assumes "0 < sz"
    and "conn_read a (min sz 256) (conn c) = (Inl e, t')"
  shows "read_loop progress_cb total_size read_size a sz segments c =
    (Inl e, c\<lparr>conn := t'\<rparr>)"
proof -
  have oc: "on_conn (conn_read a (min sz 0x100)) c = (Inl e, c\<lparr>conn := t'\<rparr>)"
    by (simp only: on_conn_def assms(2) prod.case)
  show ?thesis
    by (subst read_loop.simps) (simp only: assms(1) if_True Let_def oc prod.case sum.case)
qed

lemma read_loop_next:
  assumes "0 < sz"
    and "conn_read a (min sz 256) (conn c) = (Inr segment, t')"
  shows "read_loop None total_size read_size a sz segments c =
    read_loop None total_size (read_size + min sz 256) (a + min sz 256) (sz - min sz 256)
      (segments @ [segment]) (c\<lparr>conn := t'\<rparr>)"
proof -
  have oc: "on_conn (conn_read a (min sz 0x100)) c = (Inr segment, c\<lparr>conn := t'\<rparr>)"
    by (simp only: on_conn_def assms(2) prod.case)
  have p: "call_progress_cb None (read_size + min sz 0x100) total_size (c\<lparr>conn := t'\<rparr>) =
      (Inr (), c\<lparr>conn := t'\<rparr>)"
    by (simp add: call_progress_cb_def)
  show ?thesis
    by (subst read_loop.simps) (simp only: assms(1) if_True Let_def oc p prod.case sum.case)
qed

text \<open>
  C5, as amended. \<open>Client.read\<close> of \<open>size\<close> bytes at \<open>address\<close>, on a device that
  advertises READ and serves wire reads from its memory, when the address of every
  segment is one the four address bytes of the wire format can hold (0 to
  \<open>0xFFFFFFFF\<close>) and the progress callback, if one is supplied, returns from each of its
  calls: the buffer returned is byte for byte the naive single-shot read of the range,
  for every size, a multiple of 256 or not. What the call writes is exactly the wire read
  commands of \<open>read_segments address size\<close>, in order: consecutive segments from
  \<open>address\<close> on, each of 1 to 256 bytes. A supplied callback receives \<open>(0, size)\<close> and
  then the bytes done after each segment.
\<close>

theorem chunked_read_is_naive_read:
  assumes caps: "READ \<in> cmd_types c"
    and dev: "device (conn c) = memory_device mem"
    and inc: "incoming (conn c) = []"
    and idle: "fst (memory_run mem (written (conn c))) = Idle"
    and addr: "\<forall>(a', n) \<in> set (read_segments a sz). 0 \<le> a' \<and> a' \<le> 0xFFFFFFFF"
    and cb: "returns_on progress_cb (cb_calls c) (progress_calls sz)"
  shows "fst (client_read a sz progress_cb c) = Inr (naive_read mem a sz) \<and>
    written (conn (snd (client_read a sz progress_cb c))) =
      written (conn c) @ concat (map (\<lambda>(a, n). wire_read a n) (read_segments a sz)) \<and>
    cb_calls (snd (client_read a sz progress_cb c)) =
      cb_calls c @ calls_received progress_cb (progress_calls sz) \<and>
    (\<forall>(a', n) \<in> set (read_segments a sz). 1 \<le> n \<and> n \<le> 256)"
proof -
  let ?c = "c\<lparr>cb_calls := cb_calls c @ calls_received progress_cb [(0, sz)]\<rparr>"
  from cb have "returns_on progress_cb (cb_calls c) ((0, sz) # segment_calls sz 0 sz)"
    by (simp only: progress_calls_def)
  from call_progress_cb_returns [OF this]
  have first: "call_progress_cb progress_cb 0 sz c = (Inr (), ?c)"
    and cb': "returns_on progress_cb (cb_calls ?c) (segment_calls sz 0 sz)"
    by simp_all
  have dev': "device (conn ?c) = memory_device mem" and inc': "incoming (conn ?c) = []"
    and idle': "fst (memory_run mem (written (conn ?c))) = Idle"
    using dev inc idle by simp_all
  from read_loop_memory [OF dev' inc' idle' addr cb', of "[]"]
  obtain segments' c' where
    "read_loop progress_cb sz 0 a sz [] ?c = (Inr segments', c')"
    "concat segments' = naive_read mem a sz"
    "written (conn c') =
       written (conn c) @ concat (map (\<lambda>(a, n). wire_read a n) (read_segments a sz))"
    "cb_calls c' = cb_calls c @ calls_received progress_cb (progress_calls sz)"
    using calls_received_Cons [of progress_cb "(0, sz)" "segment_calls sz 0 sz"]
    by (auto simp add: progress_calls_def)
  then have "fst (client_read a sz progress_cb c) = Inr (naive_read mem a sz) \<and>
    written (conn (snd (client_read a sz progress_cb c))) =
      written (conn c) @ concat (map (\<lambda>(a, n). wire_read a n) (read_segments a sz)) \<and>
    cb_calls (snd (client_read a sz progress_cb c)) =
      cb_calls c @ calls_received progress_cb (progress_calls sz)"
    using caps by (simp add: client_read_def and_then_def lift_result_def first)
  moreover have "\<forall>(a', n) \<in> set (read_segments a sz). 1 \<le> n \<and> n \<le> 256"
    using read_segments_sizes by blast
  ultimately show ?thesis
    by blast
qed

theorem chunked_read_is_naive_read_witness:
  "fst (client_read 0x08000000 300 (Some print_progress)
         (stub_client {READ} (stub_transport [] (memory_device (\<lambda>a. word_of_int a))))) =
     Inr (naive_read (\<lambda>a. word_of_int a) 0x08000000 300) \<and>
   cb_calls (snd (client_read 0x08000000 300 (Some print_progress)
         (stub_client {READ} (stub_transport [] (memory_device (\<lambda>a. word_of_int a)))))) =
     [(0, 300), (256, 300), (300, 300)] \<and>
   fst (client_read 0xFFFFFFFE 4 None
         (stub_client {READ} (stub_transport [] (memory_device (\<lambda>a. word_of_int a))))) =
     Inr [0xFE, 0xFF, 0x00, 0x01]"
proof -
  let ?mem = "\<lambda>a :: int. word_of_int a :: byte"
  let ?c = "stub_client {READ} (stub_transport [] (memory_device ?mem))"
  have idx: "[0 ..< 2] = [0, Suc 0]"
    by (simp add: upt_rec)
  have h: "READ \<in> cmd_types ?c" "device (conn ?c) = memory_device ?mem"
    "incoming (conn ?c) = []" "fst (memory_run ?mem (written (conn ?c))) = Idle"
    by (simp_all add: stub_client_def stub_transport_def memory_run_def)
  have segs: "read_segments 0x08000000 300 = [(0x08000000, 256), (0x08000100, 44)]"
    by (simp add: read_segments_def idx)
  have segs2: "read_segments 0xFFFFFFFE 4 = [(0xFFFFFFFE, 4)]"
    by (simp add: read_segments_def)
  have calls: "progress_calls 300 = [(0, 300), (256, 300), (300, 300)]"
    by (simp add: progress_calls_def segment_calls_def idx)
  have addr: "\<forall>(a', n) \<in> set (read_segments 0x08000000 300). 0 \<le> a' \<and> a' \<le> 0xFFFFFFFF"
    unfolding segs by simp
  have cb: "returns_on (Some print_progress) (cb_calls ?c) (progress_calls 300)"
    by (simp add: calls returns_on_def print_progress_def)
  note r = chunked_read_is_naive_read [OF h addr cb]
  have addr2: "\<forall>(a', n) \<in> set (read_segments 0xFFFFFFFE 4). 0 \<le> a' \<and> a' \<le> 0xFFFFFFFF"
    unfolding segs2 by simp
  have cb2: "returns_on None (cb_calls ?c) (progress_calls 4)"
    by (simp add: returns_on_def)
  note r2 = chunked_read_is_naive_read [OF h addr2 cb2]
  from r have c1: "fst (client_read 0x08000000 300 (Some print_progress) ?c) =
      Inr (naive_read ?mem 0x08000000 300)"
    by (rule conjunct1)
  from r have "cb_calls (snd (client_read 0x08000000 300 (Some print_progress) ?c)) =
      cb_calls ?c @ calls_received (Some print_progress) (progress_calls 300)"
    by (rule conjunct2 [THEN conjunct2, THEN conjunct1])
  then have c2: "cb_calls (snd (client_read 0x08000000 300 (Some print_progress) ?c)) =
      [(0, 300), (256, 300), (300, 300)]"
    by (simp add: calls calls_received_def stub_client_def)
  from r2 have "fst (client_read 0xFFFFFFFE 4 None ?c) = Inr (naive_read ?mem 0xFFFFFFFE 4)"
    by (rule conjunct1)
  moreover have "naive_read ?mem 0xFFFFFFFE 4 = [0xFE, 0xFF, 0x00, 0x01]"
    by (simp add: naive_read_def)
  ultimately have c3: "fst (client_read 0xFFFFFFFE 4 None ?c) = Inr [0xFE, 0xFF, 0x00, 0x01]"
    by simp
  from c1 c2 c3 show ?thesis
    by (simp only: simp_thms)
qed

text \<open>
  C5, as stated for every address, fails: a read of 257 bytes at \<open>0xFFFFFF00\<close> reads
  the first segment, sends the opcode of the second, and raises the error of
  \<open>struct.pack\<close> on the address \<open>0x100000000\<close>; no buffer is returned.
\<close>

theorem read_beyond_address_range_counterexample:
  "fst (client_read 0xFFFFFF00 257 None
         (stub_client {READ} (stub_transport [] (memory_device (\<lambda>a. word_of_int a))))) =
     Inl StructError \<and>
   fst (client_read 0xFFFFFF00 257 None
         (stub_client {READ} (stub_transport [] (memory_device (\<lambda>a. word_of_int a))))) \<noteq>
     Inr (naive_read (\<lambda>a. word_of_int a) 0xFFFFFF00 257) \<and>
   written (conn (snd (client_read 0xFFFFFF00 257 None
         (stub_client {READ} (stub_transport [] (memory_device (\<lambda>a. word_of_int a))))))) =
     [[0x11, 0xEE], [0xFF, 0xFF, 0xFF, 0x00, 0xFF], [0xFF, 0x00], [0x11, 0xEE]]"
proof -
  let ?mem = "\<lambda>a :: int. word_of_int a :: byte"
  let ?t0 = "stub_transport [] (memory_device ?mem)"
  let ?c0 = "stub_client {READ} ?t0"
  let ?w1 = "[frame_of [0x11], frame_of (be32 0xFFFFFF00), frame_of [0xFF :: byte]]"
  let ?t1 = "?t0\<lparr>written := written ?t0 @ ?w1, incoming := []\<rparr>"
  let ?t2 = "?t1\<lparr>written := written ?t1 @ [frame_of [0x11]], incoming := []\<rparr>"
  let ?c1 = "?c0\<lparr>conn := ?t1\<rparr>"
  let ?seg = "map ?mem [0xFFFFFF00 .. 0xFFFFFF00 + uint (0xFF :: byte)]"
  have h0: "device ?t0 = memory_device ?mem" "incoming ?t0 = []"
    "fst (memory_run ?mem (written ?t0)) = Idle"
    by (simp_all add: stub_transport_def memory_run_def)
  note cr = conn_read_memory [OF h0, of "0xFFFFFF00" "0xFF"]
  have u: "uint (0xFF :: byte) + 1 = 256"
    by simp
  have r1: "conn_read 0xFFFFFF00 256 ?t0 = (Inr ?seg, ?t1)"
    using cr unfolding u by simp
  have idle1: "fst (memory_run ?mem (written ?t0 @ ?w1)) = Idle"
    using cr by simp
  have "memory_run ?mem ((written ?t0 @ ?w1) @ [frame_of [0x11]]) = (AwaitAddress, [0x79])"
    unfolding memory_run_snoc idle1 by (simp add: frame_single)
  then have "memory_device ?mem (written ?t1 @ [frame_of [0x11]]) = [0x79]"
    by (simp add: memory_device_def)
  then have s: "send [0x11] ?t1 = (Inr (), ?t2)"
    using send_bytes_acked [of "[0x11]" ?t1 "[]"]
    by (simp add: stub_transport_def)
  have r2: "conn_read 0x100000000 1 ?t1 = (Inl StructError, ?t2)"
    by (simp add: conn_read_def and_then_def lift_result_def s pack_be_u32_def)
  have "conn_read 0xFFFFFF00 (min 257 256) (conn ?c0) = (Inr ?seg, ?t1)"
    using r1 by (simp add: stub_client_def)
  from read_loop_next [OF _ this, of 257 0 "[]"]
  have l1: "read_loop None 257 0 0xFFFFFF00 257 [] ?c0 =
      read_loop None 257 256 0x100000000 1 [?seg] ?c1"
    by simp
  have "conn_read 0x100000000 (min 1 256) (conn ?c1) = (Inl StructError, ?t2)"
    using r2 by simp
  from read_loop_raises [OF _ this, of None 257 256 "[?seg]"]
  have l2: "read_loop None 257 256 0x100000000 1 [?seg] ?c1 =
      (Inl StructError, ?c1\<lparr>conn := ?t2\<rparr>)"
    by simp
  have first: "call_progress_cb None 0 257 ?c0 = (Inr (), ?c0)"
    by (simp add: call_progress_cb_def)
  have "READ \<in> cmd_types ?c0"
    by (simp add: stub_client_def)
  then have "client_read 0xFFFFFF00 257 None ?c0 =
      and_then (read_loop None 257 0 0xFFFFFF00 257 [])
        (\<lambda>segments. lift_result (Inr (concat segments))) ?c0"
    by (simp add: client_read_def and_then_def first)
  then have run: "client_read 0xFFFFFF00 257 None ?c0 =
      (Inl StructError, ?c1\<lparr>conn := ?t2\<rparr>)"
    by (simp only: and_then_def l1 l2 prod.case sum.case)
  have "frame_of [0x11] = [0x11, 0xEE]" "frame_of [0xFF] = [0xFF, 0x00]"
    "frame_of (be32 0xFFFFFF00) = [0xFF, 0xFF, 0xFF, 0x00, 0xFF]"
    by (simp_all add: frame_of_def frame_checksum_def xor_all_def be32_def)
  then show ?thesis
    unfolding run by (simp add: stub_client_def stub_transport_def)
qed

text \<open>
  C10, as amended. \<open>Client.read\<close> with \<open>size = 0\<close> on a device that advertises READ
  issues no wire command and leaves the transport as it was. Without a progress callback
  it returns the empty byte string. A supplied callback is called exactly once, with
  \<open>(0, 0)\<close>: when that call returns, the result is the empty byte string, and when it
  raises, \<open>Client.read\<close> raises the same exception.
\<close>

theorem read_of_size_zero:
  "READ \<in> cmd_types c \<Longrightarrow>
   client_read start_address 0 progress_cb c =
     (case progress_cb of
        None \<Rightarrow> (Inr [], c)
      | Some f \<Rightarrow>
          (case f (cb_calls c) 0 0 of None \<Rightarrow> Inr [] | Some e \<Rightarrow> Inl e,
           c\<lparr>cb_calls := cb_calls c @ [(0, 0)]\<rparr>))"
  by (simp add: client_read_def and_then_def lift_result_def call_progress_cb_def
      read_loop.simps [of _ _ _ _ 0] split: option.splits)

theorem read_of_size_zero_witness:
  "client_read 0x08000000 0 (Some (\<lambda>before current total_size. None))
       (stub_client {READ} (stub_transport [] silent)) =
     (Inr [], (stub_client {READ} (stub_transport [] silent))\<lparr>cb_calls := [(0, 0)]\<rparr>) \<and>
   client_read 0x08000000 0 None (stub_client {READ} (stub_transport [] silent)) =
     (Inr [], stub_client {READ} (stub_transport [] silent)) \<and>
   client_read 0x08000000 0 (Some (\<lambda>before current total_size. Some (ValueError ''stop'')))
       (stub_client {READ} (stub_transport [] silent)) =
     (Inl (ValueError ''stop''),
      (stub_client {READ} (stub_transport [] silent))\<lparr>cb_calls := [(0, 0)]\<rparr>)"
  using read_of_size_zero [of "stub_client {READ} (stub_transport [] silent)" "0x08000000"
      "Some (\<lambda>before current total_size. None)"]
    read_of_size_zero [of "stub_client {READ} (stub_transport [] silent)" "0x08000000" None]
    read_of_size_zero [of "stub_client {READ} (stub_transport [] silent)" "0x08000000"
      "Some (\<lambda>before current total_size. Some (ValueError ''stop''))"]
  by (simp add: stub_client_def)

text \<open>
  C10, as stated for every supplied callback, fails: with the callback the repository
  itself passes, \<open>_print_progress\<close>, the one call \<open>(0, 0)\<close> divides by a total of 0
  and \<open>Client.read\<close> raises \<open>ZeroDivisionError\<close> in place of returning the empty
  byte string.
\<close>

theorem read_of_size_zero_with_print_progress_counterexample:
  "client_read 0x08000000 0 (Some print_progress)
       (stub_client {READ} (stub_transport [] silent)) =
     (Inl ZeroDivisionError,
      (stub_client {READ} (stub_transport [] silent))\<lparr>cb_calls := [(0, 0)]\<rparr>) \<and>
   fst (client_read 0x08000000 0 (Some print_progress)
       (stub_client {READ} (stub_transport [] silent))) \<noteq> Inr []"
  by (simp add: client_read_def and_then_def call_progress_cb_def print_progress_def
      stub_client_def)

end
